theory Spec2Isabelle
  imports Main "HOL-Library.Word" "HOL-Library.Signed_Division"
begin

section \<open>Data model of the PKI tidy subsystem (builtin/logical/pki/path_tidy.go)\<close>

text \<open>
  Times are nanoseconds since the Unix epoch as unbounded integers (Go's \<open>time.Time\<close>
  compares the pair of seconds and nanoseconds, which is the comparison of the total);
  a \<open>time.Duration\<close> is a signed 64-bit count of nanoseconds; Go's \<open>int\<close> and \<open>uint\<close>
  are 64-bit words.
\<close>

type_synonym byte = "8 word"
type_synonym time = int
type_synonym duration = "64 word"
type_synonym issuerID = string

text \<open>
  An error value is either produced by a collaborator (storage, decoder, parser, CRL
  builder) or built by \<open>fmt.Errorf\<close> from a format string, its string arguments and the
  error it wraps.
\<close>

datatype error = External string | Errorf string "string list" error

definition time_After :: "time \<Rightarrow> time \<Rightarrow> bool" where
  "time_After t u = (u < t)"

definition time_Add :: "time \<Rightarrow> duration \<Rightarrow> time" where
  "time_Add t d = t + sint d"

text \<open>The zero value of \<open>time.Time\<close>: January 1, year 1, 00:00:00 UTC.\<close>

definition zeroTime :: time where
  "zeroTime = - 62135596800 * 1000000000"

definition Second :: duration where
  "Second = 1000000000"

record tidyConfig =
  CertStore :: bool
  RevokedCerts :: bool
  IssuerAssocs :: bool
  SafetyBuffer :: duration

datatype tidyStatusState =
  tidyStatusInactive | tidyStatusStarted | tidyStatusFinished | tidyStatusError

text \<open>
  The \<open>tidyStatus\<close> struct is declared outside the given sources; its fields are the ones
  \<open>path_tidy.go\<close> reads and writes (the counters are \<open>uint\<close>, as the conversion
  \<open>uint(serialCount) - b.tidyStatus.certStoreDeletedCount\<close> shows).
\<close>

record tidyStatus =
  safetyBuffer :: "64 word"
  tidyCertStore :: bool
  tidyRevokedCerts :: bool
  tidyRevokedAssocs :: bool
  state :: tidyStatusState
  err :: "error option"
  timeStarted :: time
  timeFinished :: time
  message :: string
  certStoreDeletedCount :: "64 word"
  revokedCertDeletedCount :: "64 word"
  missingIssuerCertCount :: "64 word"

text \<open>The part of \<open>x509.Certificate\<close> the tidiers read.\<close>

record certificate =
  Raw :: "byte list"
  NotAfter :: time

text \<open>
  Modelled from the spec: the \<open>revocationInfo\<close> struct is declared outside the given
  sources; a revocation entry holds the raw revoked-certificate bytes, a revocation
  timestamp and an issuer reference (possibly empty).
\<close>

record revocationInfo =
  CertificateBytes :: "byte list"
  RevocationTime :: int
  CertificateIssuer :: issuerID

record crlConfig =
  AutoRebuild :: bool

text \<open>
  The pure collaborators: \<open>x509.ParseCertificate\<close>, \<open>StorageEntry.DecodeJSON\<close> (which
  decodes into the struct it is handed, so it takes that struct's current contents),
  \<open>logical.StorageEntryJSON\<close>, and the ownership check by which a revoked certificate is
  matched against an issuer certificate.
\<close>

record env =
  ParseCertificate :: "byte list \<Rightarrow> error + certificate"
  DecodeJSON :: "byte list \<Rightarrow> revocationInfo \<Rightarrow> error + revocationInfo"
  StorageEntryJSON :: "string \<Rightarrow> revocationInfo \<Rightarrow> error + byte list"
  issuerMatches :: "certificate \<Rightarrow> certificate \<Rightarrow> bool"

text \<open>
  The storage facade: the stored values by key (no value: \<open>Get\<close> returns a nil entry; an
  empty list: an entry with a nil or empty \<open>Value\<close>), what \<open>List\<close> returns for a prefix,
  and the error, if any, with which each operation fails on a key.
\<close>

record storage =
  entries :: "string \<rightharpoonup> byte list"
  listing :: "string \<Rightarrow> string list"
  list_err :: "string \<Rightarrow> error option"
  get_err :: "string \<Rightarrow> error option"
  delete_err :: "string \<Rightarrow> error option"
  put_err :: "string \<Rightarrow> error option"

text \<open>The calls that change a collaborator, in the order made (the latest first).\<close>

datatype call = CallDelete string | CallPut string "byte list" | CallRebuild bool

text \<open>
  The backend: the run guard, the status tracker, the request's storage, the clock (the
  value of the n-th \<open>time.Now()\<close>), the issuer resolver's and the revocation
  configuration's answers, the CRL builder's failure if any, the replication state, and
  two traces kept for the proofs: the calls made and every value the status took.
\<close>

record backend =
  tidyCASGuard :: "32 word"
  tidyStatus :: tidyStatus
  storage :: storage
  clock :: "nat \<Rightarrow> time"
  ticks :: nat
  issuerMap :: "error + (issuerID \<times> certificate) list"
  revocationConfig :: "error + crlConfig"
  rebuild_err :: "error option"
  perfSecondary :: bool
  localMount :: bool
  calls :: "call list"
  statusLog :: "tidyStatus list"

section \<open>Collaborators\<close>

definition timeNow :: "backend \<Rightarrow> time \<times> backend" where
  "timeNow b = (clock b (ticks b), b\<lparr>ticks := Suc (ticks b)\<rparr>)"

definition storage_List :: "string \<Rightarrow> backend \<Rightarrow> error + string list" where
  "storage_List prefix b =
     (case list_err (storage b) prefix of
        Some e \<Rightarrow> Inl e
      | None \<Rightarrow> Inr (listing (storage b) prefix))"

definition storage_Get :: "string \<Rightarrow> backend \<Rightarrow> error + byte list option" where
  "storage_Get key b =
     (case get_err (storage b) key of
        Some e \<Rightarrow> Inl e
      | None \<Rightarrow> Inr (entries (storage b) key))"

definition storage_Delete :: "string \<Rightarrow> backend \<Rightarrow> error option \<times> backend" where
  "storage_Delete key b =
     (case delete_err (storage b) key of
        Some e \<Rightarrow> (Some e, b\<lparr>calls := CallDelete key # calls b\<rparr>)
      | None \<Rightarrow>
          (None, b\<lparr>storage := (storage b)\<lparr>entries := (entries (storage b))(key := None)\<rparr>,
                    calls := CallDelete key # calls b\<rparr>))"

definition storage_Put :: "string \<Rightarrow> byte list \<Rightarrow> backend \<Rightarrow> error option \<times> backend" where
  "storage_Put key v b =
     (case put_err (storage b) key of
        Some e \<Rightarrow> (Some e, b\<lparr>calls := CallPut key v # calls b\<rparr>)
      | None \<Rightarrow>
          (None, b\<lparr>storage := (storage b)\<lparr>entries := (entries (storage b))(key \<mapsto> v)\<rparr>,
                    calls := CallPut key v # calls b\<rparr>))"

definition crlBuilder_rebuild :: "bool \<Rightarrow> backend \<Rightarrow> error option \<times> backend" where
  "crlBuilder_rebuild forceNew b = (rebuild_err b, b\<lparr>calls := CallRebuild forceNew # calls b\<rparr>)"

text \<open>\<open>%d\<close> of a non-negative \<open>int\<close>.\<close>

function itoa :: "nat \<Rightarrow> string" where
  "itoa n = (if n < 10 then [char_of (48 + n)] else itoa (n div 10) @ [char_of (48 + n mod 10)])"
  by pat_completeness auto
termination
  by (relation "measure id") auto

declare itoa.simps [simp del]

section \<open>The status tracker\<close>

definition setStatus :: "tidyStatus \<Rightarrow> backend \<Rightarrow> backend" where
  "setStatus st b = b\<lparr>tidyStatus := st, statusLog := st # statusLog b\<rparr>"

definition tidyStatusStart :: "tidyConfig \<Rightarrow> backend \<Rightarrow> backend" where
  "tidyStatusStart config b =
     (case timeNow b of (now, b1) \<Rightarrow>
        setStatus
          \<lparr>safetyBuffer = word_of_int (sint (SafetyBuffer config) sdiv sint Second),
           tidyCertStore = CertStore config,
           tidyRevokedCerts = RevokedCerts config,
           tidyRevokedAssocs = IssuerAssocs config,
           state = tidyStatusStarted,
           err = None,
           timeStarted = now,
           timeFinished = zeroTime,
           message = [],
           certStoreDeletedCount = 0,
           revokedCertDeletedCount = 0,
           missingIssuerCertCount = 0\<rparr> b1)"

definition tidyStatusStop :: "error option \<Rightarrow> backend \<Rightarrow> backend" where
  "tidyStatusStop e b =
     (case timeNow b of (now, b1) \<Rightarrow>
        setStatus
          ((tidyStatus b1)\<lparr>timeFinished := now, err := e,
             state := (if e = None then tidyStatusFinished else tidyStatusError)\<rparr>) b1)"

definition tidyStatusMessage :: "string \<Rightarrow> backend \<Rightarrow> backend" where
  "tidyStatusMessage msg b = setStatus ((tidyStatus b)\<lparr>message := msg\<rparr>) b"

definition tidyStatusIncCertStoreCount :: "backend \<Rightarrow> backend" where
  "tidyStatusIncCertStoreCount b =
     setStatus ((tidyStatus b)\<lparr>certStoreDeletedCount := certStoreDeletedCount (tidyStatus b) + 1\<rparr>) b"

definition tidyStatusIncRevokedCertCount :: "backend \<Rightarrow> backend" where
  "tidyStatusIncRevokedCertCount b =
     setStatus ((tidyStatus b)\<lparr>revokedCertDeletedCount := revokedCertDeletedCount (tidyStatus b) + 1\<rparr>) b"

definition tidyStatusIncMissingIssuerCertCount :: "backend \<Rightarrow> backend" where
  "tidyStatusIncMissingIssuerCertCount b =
     setStatus ((tidyStatus b)\<lparr>missingIssuerCertCount := missingIssuerCertCount (tidyStatus b) + 1\<rparr>) b"

section \<open>The certificate store tidier\<close>

text \<open>The body of the loop of \<open>doTidyCertStore\<close> for entry \<open>i\<close> of \<open>serialCount\<close>.\<close>

definition tidyCertEntry ::
  "env \<Rightarrow> tidyConfig \<Rightarrow> nat \<Rightarrow> nat \<Rightarrow> string \<Rightarrow> backend \<Rightarrow> error option \<times> backend" where
  "tidyCertEntry env config serialCount i serial b0 =
     (let b = tidyStatusMessage
                (''Tidying certificate store: checking entry '' @ itoa i @ '' of '' @ itoa serialCount) b0
      in case storage_Get (''certs/'' @ serial) b of
        Inl e \<Rightarrow> (Some (Errorf ''error fetching certificate %q: %w'' [serial] e), b)
      | Inr None \<Rightarrow>
          (case storage_Delete (''certs/'' @ serial) b of
             (Some e, b1) \<Rightarrow>
               (Some (Errorf ''error deleting nil entry with serial %s: %w'' [serial] e), b1)
           | (None, b1) \<Rightarrow> (None, tidyStatusIncCertStoreCount b1))
      | Inr (Some v) \<Rightarrow>
          if length v = 0 then
            (case storage_Delete (''certs/'' @ serial) b of
               (Some e, b1) \<Rightarrow>
                 (Some (Errorf ''error deleting entry with nil value with serial %s: %w'' [serial] e), b1)
             | (None, b1) \<Rightarrow> (None, tidyStatusIncCertStoreCount b1))
          else
            (case ParseCertificate env v of
               Inl e \<Rightarrow>
                 (Some (Errorf ''unable to parse stored certificate with serial %q: %w'' [serial] e), b)
             | Inr cert \<Rightarrow>
                 (case timeNow b of (now, b1) \<Rightarrow>
                    if time_After now (time_Add (NotAfter cert) (SafetyBuffer config)) then
                      (case storage_Delete (''certs/'' @ serial) b1 of
                         (Some e, b2) \<Rightarrow>
                           (Some (Errorf ''error deleting serial %q from storage: %w'' [serial] e), b2)
                       | (None, b2) \<Rightarrow> (None, tidyStatusIncCertStoreCount b2))
                    else (None, b1))))"

fun tidyCertLoop ::
  "env \<Rightarrow> tidyConfig \<Rightarrow> nat \<Rightarrow> nat \<Rightarrow> string list \<Rightarrow> backend \<Rightarrow> error option \<times> backend" where
  "tidyCertLoop env config serialCount i [] b = (None, b)"
| "tidyCertLoop env config serialCount i (serial # serials) b =
     (case tidyCertEntry env config serialCount i serial b of
        (Some e, b1) \<Rightarrow> (Some e, b1)
      | (None, b1) \<Rightarrow> tidyCertLoop env config serialCount (Suc i) serials b1)"

definition doTidyCertStore :: "env \<Rightarrow> tidyConfig \<Rightarrow> backend \<Rightarrow> error option \<times> backend" where
  "doTidyCertStore env config b =
     (case storage_List ''certs/'' b of
        Inl e \<Rightarrow> (Some (Errorf ''error fetching list of certs: %w'' [] e), b)
      | Inr serials \<Rightarrow> tidyCertLoop env config (length serials) 0 serials b)"

section \<open>The revocation store tidier\<close>

text \<open>
  Modelled from the spec: \<open>isRevInfoIssuerValid\<close> is defined outside the given sources; an
  issuer reference is valid when it is non-empty and resolves to a currently known
  issuer in the issuer map.
\<close>

definition isRevInfoIssuerValid :: "revocationInfo \<Rightarrow> (issuerID \<times> certificate) list \<Rightarrow> bool" where
  "isRevInfoIssuerValid ri issuerIDCertMap =
     (CertificateIssuer ri \<noteq> [] \<and> map_of issuerIDCertMap (CertificateIssuer ri) \<noteq> None)"

text \<open>
  Modelled from the spec: \<open>associateRevokedCertWithIsssuer\<close> is defined outside the given
  sources; the revoked certificate is matched against every known issuer's certificate,
  and the entry is associated with an issuer that matches. The matching rule itself is
  the collaborator \<open>issuerMatches\<close>.
\<close>

fun associateRevokedCertWithIsssuer ::
  "env \<Rightarrow> revocationInfo \<Rightarrow> certificate \<Rightarrow> (issuerID \<times> certificate) list \<Rightarrow> bool \<times> revocationInfo" where
  "associateRevokedCertWithIsssuer env ri revokedCert [] = (False, ri)"
| "associateRevokedCertWithIsssuer env ri revokedCert ((issuerId, issuerCert) # rest) =
     (if issuerMatches env revokedCert issuerCert
      then (True, ri\<lparr>CertificateIssuer := issuerId\<rparr>)
      else associateRevokedCertWithIsssuer env ri revokedCert rest)"

text \<open>
  The variables of \<open>doTidyRevocationStore\<close> that live across iterations: \<open>revInfo\<close> is
  declared before the loop and every entry is decoded into it.
\<close>

record revLoop =
  rebuildCRL :: bool
  fixedIssuers :: nat
  revInfo :: revocationInfo

text \<open>
  Lines 287 to 297: the issuer repair. It returns \<open>storeCert\<close>, the loop variables and
  the backend.
\<close>

definition repairIssuer ::
  "env \<Rightarrow> tidyConfig \<Rightarrow> (issuerID \<times> certificate) list \<Rightarrow> certificate \<Rightarrow> revLoop \<Rightarrow> backend
     \<Rightarrow> bool \<times> revLoop \<times> backend" where
  "repairIssuer env config issuerIDCertMap revokedCert l b =
     (if IssuerAssocs config then
        if \<not> isRevInfoIssuerValid (revInfo l) issuerIDCertMap then
          (let b1 = tidyStatusIncMissingIssuerCertCount b;
               cleared = (revInfo l)\<lparr>CertificateIssuer := []\<rparr>
           in case associateRevokedCertWithIsssuer env cleared revokedCert issuerIDCertMap of
                (True, ri) \<Rightarrow> (True, l\<lparr>fixedIssuers := fixedIssuers l + 1, revInfo := ri\<rparr>, b1)
              | (False, ri) \<Rightarrow> (True, l\<lparr>revInfo := ri\<rparr>, b1))
        else (False, l, b)
      else (False, l, b))"

text \<open>
  Lines 299 to 315: the expiry-based removal. It takes and returns \<open>storeCert\<close> and the
  loop variables.
\<close>

definition removeExpired ::
  "tidyConfig \<Rightarrow> string \<Rightarrow> certificate \<Rightarrow> bool \<Rightarrow> revLoop \<Rightarrow> backend
     \<Rightarrow> error option \<times> bool \<times> revLoop \<times> backend" where
  "removeExpired config serial revokedCert storeCert l b =
     (if RevokedCerts config then
        (case timeNow b of (now, b1) \<Rightarrow>
           if time_After now (time_Add (NotAfter revokedCert) (SafetyBuffer config)) then
             (case storage_Delete (''revoked/'' @ serial) b1 of
                (Some e, b2) \<Rightarrow>
                  (Some (Errorf ''error deleting serial %q from revoked list: %w'' [serial] e),
                   storeCert, l, b2)
              | (None, b2) \<Rightarrow>
                  (case storage_Delete (''certs/'' @ serial) b2 of
                     (Some e, b3) \<Rightarrow>
                       (Some (Errorf ''error deleting serial %q from store when tidying revoked: %w''
                                [serial] e),
                        storeCert, l, b3)
                   | (None, b3) \<Rightarrow>
                       (None, False, l\<lparr>rebuildCRL := True\<rparr>, tidyStatusIncRevokedCertCount b3)))
           else (None, storeCert, l, b1))
      else (None, storeCert, l, b))"

text \<open>Lines 319 to 329: the entry is written back when \<open>storeCert\<close> is set.\<close>

definition writeBack :: "env \<Rightarrow> string \<Rightarrow> bool \<Rightarrow> revLoop \<Rightarrow> backend \<Rightarrow> error option \<times> backend" where
  "writeBack env serial storeCert l b =
     (if storeCert then
        (case StorageEntryJSON env (''revoked/'' @ serial) (revInfo l) of
           Inl e \<Rightarrow>
             (Some (Errorf ''error building entry to persist changes to serial %v from revoked list: %v''
                      [serial] e), b)
         | Inr v \<Rightarrow>
             (case storage_Put (''revoked/'' @ serial) v b of
                (Some e, b1) \<Rightarrow>
                  (Some (Errorf ''error persisting changes to serial %v from revoked list: %v''
                           [serial] e), b1)
              | (None, b1) \<Rightarrow> (None, b1)))
      else (None, b))"

text \<open>The body of the loop of \<open>doTidyRevocationStore\<close> for entry \<open>i\<close>.\<close>

definition tidyRevokedEntry ::
  "env \<Rightarrow> tidyConfig \<Rightarrow> (issuerID \<times> certificate) list \<Rightarrow> nat \<Rightarrow> nat \<Rightarrow> string \<Rightarrow> revLoop \<Rightarrow> backend
     \<Rightarrow> error option \<times> revLoop \<times> backend" where
  "tidyRevokedEntry env config issuerIDCertMap revokedSerialsCount i serial l b0 =
     (let b = tidyStatusMessage
                (''Tidying revoked certificates: checking certificate '' @ itoa i @ '' of '' @ itoa revokedSerialsCount) b0
      in case storage_Get (''revoked/'' @ serial) b of
        Inl e \<Rightarrow> (Some (Errorf ''unable to fetch revoked cert with serial %q: %w'' [serial] e), l, b)
      | Inr None \<Rightarrow>
          (case storage_Delete (''revoked/'' @ serial) b of
             (Some e, b1) \<Rightarrow>
               (Some (Errorf ''error deleting nil revoked entry with serial %s: %w'' [serial] e), l, b1)
           | (None, b1) \<Rightarrow> (None, l, tidyStatusIncRevokedCertCount b1))
      | Inr (Some v) \<Rightarrow>
          if length v = 0 then
            (case storage_Delete (''revoked/'' @ serial) b of
               (Some e, b1) \<Rightarrow>
                 (Some (Errorf ''error deleting revoked entry with nil value with serial %s: %w''
                          [serial] e), l, b1)
             | (None, b1) \<Rightarrow> (None, l, tidyStatusIncRevokedCertCount b1))
          else
            (case DecodeJSON env v (revInfo l) of
               Inl e \<Rightarrow>
                 (Some (Errorf ''error decoding revocation entry for serial %q: %w'' [serial] e), l, b)
             | Inr ri \<Rightarrow>
                 (case ParseCertificate env (CertificateBytes ri) of
                    Inl e \<Rightarrow>
                      (Some (Errorf ''unable to parse stored revoked certificate with serial %q: %w''
                               [serial] e),
                       l\<lparr>revInfo := ri\<rparr>, b)
                  | Inr revokedCert \<Rightarrow>
                      (case repairIssuer env config issuerIDCertMap revokedCert (l\<lparr>revInfo := ri\<rparr>) b of
                         (storeCert, l1, b1) \<Rightarrow>
                           (case removeExpired config serial revokedCert storeCert l1 b1 of
                              (Some e, storeCert2, l2, b2) \<Rightarrow> (Some e, l2, b2)
                            | (None, storeCert2, l2, b2) \<Rightarrow>
                                (case writeBack env serial storeCert2 l2 b2 of
                                   (e, b3) \<Rightarrow> (e, l2, b3)))))))"

fun tidyRevokedLoop ::
  "env \<Rightarrow> tidyConfig \<Rightarrow> (issuerID \<times> certificate) list \<Rightarrow> nat \<Rightarrow> nat \<Rightarrow> string list \<Rightarrow> revLoop \<Rightarrow> backend
     \<Rightarrow> error option \<times> revLoop \<times> backend" where
  "tidyRevokedLoop env config issuerIDCertMap revokedSerialsCount i [] l b = (None, l, b)"
| "tidyRevokedLoop env config issuerIDCertMap revokedSerialsCount i (serial # serials) l b =
     (case tidyRevokedEntry env config issuerIDCertMap revokedSerialsCount i serial l b of
        (Some e, l1, b1) \<Rightarrow> (Some e, l1, b1)
      | (None, l1, b1) \<Rightarrow> tidyRevokedLoop env config issuerIDCertMap revokedSerialsCount (Suc i) serials l1 b1)"

text \<open>Lines 336 to 351: the CRL rebuild after the scan.\<close>

definition rebuildAfterScan :: "revLoop \<Rightarrow> backend \<Rightarrow> error option \<times> backend" where
  "rebuildAfterScan l b =
     (if rebuildCRL l then
        (case revocationConfig b of
           Inl e \<Rightarrow> (Some e, b)
         | Inr config \<Rightarrow>
             if \<not> AutoRebuild config then
               (case crlBuilder_rebuild False b of
                  (Some e, b1) \<Rightarrow> (Some e, b1)
                | (None, b1) \<Rightarrow> (None, b1))
             else (None, b))
      else (None, b))"

definition doTidyRevocationStore :: "env \<Rightarrow> tidyConfig \<Rightarrow> backend \<Rightarrow> error option \<times> backend" where
  "doTidyRevocationStore env config b =
     (case issuerMap b of
        Inl e \<Rightarrow> (Some e, b)
      | Inr issuerIDCertMap \<Rightarrow>
          (case storage_List ''revoked/'' b of
             Inl e \<Rightarrow> (Some (Errorf ''error fetching list of revoked certs: %w'' [] e), b)
           | Inr revokedSerials \<Rightarrow>
               (case tidyRevokedLoop env config issuerIDCertMap (length revokedSerials) 0 revokedSerials
                       \<lparr>rebuildCRL = False, fixedIssuers = 0,
                        revInfo = \<lparr>CertificateBytes = [], RevocationTime = 0, CertificateIssuer = []\<rparr>\<rparr> b of
                  (Some e, l, b1) \<Rightarrow> (Some e, b1)
                | (None, l, b1) \<Rightarrow> rebuildAfterScan l b1)))"

section \<open>The orchestrator\<close>

text \<open>The closure \<open>doTidy\<close> of \<open>startTidyOperation\<close>.\<close>

definition doTidy :: "env \<Rightarrow> tidyConfig \<Rightarrow> backend \<Rightarrow> error option \<times> backend" where
  "doTidy env config b =
     (case (if CertStore config then doTidyCertStore env config b else (None, b)) of
        (Some e, b1) \<Rightarrow> (Some e, b1)
      | (None, b1) \<Rightarrow>
          if RevokedCerts config \<or> IssuerAssocs config then
            (case doTidyRevocationStore env config b1 of
               (Some e, b2) \<Rightarrow> (None, b2)
             | (None, b2) \<Rightarrow> (None, b2))
          else (None, b1))"

text \<open>
  The goroutine of \<open>startTidyOperation\<close>, run to its end: the deferred store resets the
  guard last.
\<close>

definition tidyGoroutine :: "env \<Rightarrow> tidyConfig \<Rightarrow> backend \<Rightarrow> backend" where
  "tidyGoroutine env config b =
     (let b1 = tidyStatusStart config b in
      case doTidy env config b1 of
        (Some e, b2) \<Rightarrow> (tidyStatusStop (Some e) b2)\<lparr>tidyCASGuard := 0\<rparr>
      | (None, b2) \<Rightarrow> (tidyStatusStop None b2)\<lparr>tidyCASGuard := 0\<rparr>)"

text \<open>The values of a response's \<open>Data\<close> map.\<close>

datatype field = VNil | VBool bool | VInt "64 word" | VUint "64 word" | VString string
  | VTime time | VErrorText error

record response =
  Data :: "string \<rightharpoonup> field"
  Warnings :: "string list"
  StatusCode :: "nat option"

definition emptyResponse :: response where
  "emptyResponse = \<lparr>Data = Map.empty, Warnings = [], StatusCode = None\<rparr>"

definition ErrorResponse :: "string \<Rightarrow> response" where
  "ErrorResponse text = emptyResponse\<lparr>Data := [''error'' \<mapsto> VString text]\<rparr>"

definition AddWarning :: "string \<Rightarrow> response \<Rightarrow> response" where
  "AddWarning w resp = resp\<lparr>Warnings := Warnings resp @ [w]\<rparr>"

definition RespondWithStatusCode :: "response \<Rightarrow> nat \<Rightarrow> response" where
  "RespondWithStatusCode resp code = resp\<lparr>StatusCode := Some code\<rparr>"

record fieldData =
  safety_buffer :: "64 word"
  tidy_cert_store :: bool
  tidy_revoked_certs :: bool
  tidy_revocation_list :: bool
  tidy_revoked_cert_issuer_associations :: bool

text \<open>\<open>atomic.CompareAndSwapUint32\<close>: one atomic step.\<close>

definition CompareAndSwapUint32 :: "32 word \<Rightarrow> 32 word \<Rightarrow> backend \<Rightarrow> bool \<times> backend" where
  "CompareAndSwapUint32 old new b =
     (if tidyCASGuard b = old then (True, b\<lparr>tidyCASGuard := new\<rparr>) else (False, b))"

text \<open>
  \<open>pathTidyWrite\<close> returns the response and error of the handler, the configuration of
  the goroutine it has started (if any), and the backend.
\<close>

definition pathTidyWrite ::
  "fieldData \<Rightarrow> backend \<Rightarrow> (response option \<times> error option) \<times> tidyConfig option \<times> backend" where
  "pathTidyWrite d b =
     (let safetyBuffer = safety_buffer d;
          tidyCertStore = tidy_cert_store d;
          tidyRevokedCerts = (tidy_revoked_certs d \<or> tidy_revocation_list d);
          tidyRevokedAssocs = tidy_revoked_cert_issuer_associations d
      in if sint safetyBuffer < 1 then
           ((Some (ErrorResponse ''safety_buffer must be greater than zero''), None), None, b)
         else
           (let bufferDuration = safetyBuffer * Second;
                config = \<lparr>CertStore = tidyCertStore, RevokedCerts = tidyRevokedCerts,
                          IssuerAssocs = tidyRevokedAssocs, SafetyBuffer = bufferDuration\<rparr>
            in case CompareAndSwapUint32 0 1 b of
                 (False, b1) \<Rightarrow>
                   ((Some (AddWarning ''Tidy operation already in progress.'' emptyResponse), None),
                    None, b1)
               | (True, b1) \<Rightarrow>
                   (let resp =
                      (if \<not> tidyCertStore \<and> \<not> tidyRevokedCerts \<and> \<not> tidyRevokedAssocs then
                         AddWarning ''No targets to tidy; specify tidy_cert_store=true or tidy_revoked_certs=true or tidy_revoked_cert_issuer_associations=true to start a tidy operation.'' emptyResponse
                       else
                         AddWarning ''Tidy operation successfully started. Any information from the operation will be printed to Vault's server logs.'' emptyResponse)
                    in ((Some (RespondWithStatusCode resp 202), None), Some config, b1))))"

definition ErrReadOnly :: error where
  "ErrReadOnly = External ''cannot write to readonly storage''"

text \<open>
  In state \<open>Error\<close> the handler calls \<open>b.tidyStatus.err.Error()\<close>, which panics on a nil
  error; the panic is the error returned here.
\<close>

definition nilDereference :: error where
  "nilDereference = External ''runtime error: invalid memory address or nil pointer dereference''"

definition inactiveData :: "string \<rightharpoonup> field" where
  "inactiveData =
     [''safety_buffer'' \<mapsto> VNil,
      ''tidy_cert_store'' \<mapsto> VNil,
      ''tidy_revoked_certs'' \<mapsto> VNil,
      ''state'' \<mapsto> VString ''Inactive'',
      ''error'' \<mapsto> VNil,
      ''time_started'' \<mapsto> VNil,
      ''time_finished'' \<mapsto> VNil,
      ''message'' \<mapsto> VNil,
      ''cert_store_deleted_count'' \<mapsto> VNil,
      ''revoked_cert_deleted_count'' \<mapsto> VNil,
      ''missing_issuer_cert_count'' \<mapsto> VNil]"

definition pathTidyStatusRead :: "backend \<Rightarrow> response option \<times> error option" where
  "pathTidyStatusRead b =
     (if perfSecondary b \<and> \<not> localMount b then (None, Some ErrReadOnly)
      else if state (tidyStatus b) = tidyStatusInactive then
        (Some (emptyResponse\<lparr>Data := inactiveData\<rparr>), None)
      else
        (let st = tidyStatus b;
             data = inactiveData
               (''safety_buffer'' \<mapsto> VInt (safetyBuffer st),
                ''tidy_cert_store'' \<mapsto> VBool (tidyCertStore st),
                ''tidy_revoked_certs'' \<mapsto> VBool (tidyRevokedCerts st),
                ''tidy_revoked_cert_issuer_associations'' \<mapsto> VBool (tidyRevokedAssocs st),
                ''time_started'' \<mapsto> VTime (timeStarted st),
                ''message'' \<mapsto> VString (message st),
                ''cert_store_deleted_count'' \<mapsto> VUint (certStoreDeletedCount st),
                ''revoked_cert_deleted_count'' \<mapsto> VUint (revokedCertDeletedCount st),
                ''missing_issuer_cert_count'' \<mapsto> VUint (missingIssuerCertCount st));
             data2 =
               (case state st of
                  tidyStatusStarted \<Rightarrow> data(''state'' \<mapsto> VString ''Running'')
                | tidyStatusFinished \<Rightarrow>
                    data(''state'' \<mapsto> VString ''Finished'',
                         ''time_finished'' \<mapsto> VTime (timeFinished st),
                         ''message'' \<mapsto> VNil)
                | tidyStatusError \<Rightarrow>
                    data(''state'' \<mapsto> VString ''Error'',
                         ''time_finished'' \<mapsto> VTime (timeFinished st),
                         ''error'' \<mapsto> VErrorText (the (err st)))
                | tidyStatusInactive \<Rightarrow> data)
         in if state st = tidyStatusError \<and> err st = None then (None, Some nilDereference)
            else (Some (emptyResponse\<lparr>Data := data2\<rparr>), None)))"

section \<open>Requests and runs interleaved\<close>

text \<open>
  The handlers and the goroutines share the backend. A start request is one step: its
  only access to shared state is the atomic compare-and-swap. The goroutine that
  \<open>startTidyOperation\<close> launches runs later, in four steps: \<open>tidyStatusStart\<close>, the closure
  \<open>doTidy\<close>, \<open>tidyStatusStop\<close> with the closure's result, and last the deferred store that
  resets the guard. A goroutine is where it stands among these; the second component of
  the system lists the goroutines launched and not yet ended, and \<open>Step i\<close> lets the
  \<open>i\<close>-th of them take its next step.
\<close>

datatype goroutine = Spawned tidyConfig | Tidying tidyConfig | Stopping "error option" | Exiting

fun goroutine_step :: "env \<Rightarrow> goroutine \<Rightarrow> backend \<Rightarrow> backend \<times> goroutine option" where
  "goroutine_step env (Spawned config) b = (tidyStatusStart config b, Some (Tidying config))"
| "goroutine_step env (Tidying config) b =
     (case doTidy env config b of (e, b1) \<Rightarrow> (b1, Some (Stopping e)))"
| "goroutine_step env (Stopping e) b = (tidyStatusStop e b, Some Exiting)"
| "goroutine_step env Exiting b = (b\<lparr>tidyCASGuard := 0\<rparr>, None)"

datatype event = Request fieldData | Step nat

fun sys_step :: "env \<Rightarrow> backend \<times> goroutine list \<Rightarrow> event \<Rightarrow> backend \<times> goroutine list" where
  "sys_step env (b, running) (Request d) =
     (case pathTidyWrite d b of
        (r, None, b1) \<Rightarrow> (b1, running)
      | (r, Some config, b1) \<Rightarrow> (b1, running @ [Spawned config]))"
| "sys_step env (b, running) (Step i) =
     (if i < length running then
        (case goroutine_step env (running ! i) b of
           (b1, Some g) \<Rightarrow> (b1, running[i := g])
         | (b1, None) \<Rightarrow> (b1, take i running @ drop (Suc i) running))
      else (b, running))"

section \<open>An example backend\<close>

text \<open>
  A small backend on which the theorems below are instantiated: one certificate expiring
  at second 1000, one issuer \<open>root\<close>, a certificate store with the entry \<open>01\<close>, and a
  revocation store with the entry \<open>02\<close> (whose issuer reference \<open>old\<close> is unknown), the
  empty entry \<open>03\<close> and the entry \<open>04\<close> (whose issuer reference is \<open>root\<close>).
\<close>

definition demoCert :: certificate where
  "demoCert = \<lparr>Raw = [1], NotAfter = 1000 * 1000000000\<rparr>"

definition rootCert :: certificate where
  "rootCert = \<lparr>Raw = [9], NotAfter = 900000 * 1000000000\<rparr>"

definition demoEnv :: env where
  "demoEnv =
     \<lparr>ParseCertificate =
        (\<lambda>bs. if bs = [1] then Inr demoCert else Inl (External ''x509: malformed certificate'')),
      DecodeJSON =
        (\<lambda>bs ri. if bs = [2]
           then Inr \<lparr>CertificateBytes = [1], RevocationTime = 5, CertificateIssuer = ''old''\<rparr>
           else if bs = [4]
           then Inr \<lparr>CertificateBytes = [1], RevocationTime = 5, CertificateIssuer = ''root''\<rparr>
           else Inl (External ''unexpected end of JSON input'')),
      StorageEntryJSON = (\<lambda>k ri. Inr (if CertificateIssuer ri = ''root'' then [4] else [5])),
      issuerMatches = (\<lambda>c i. Raw i = [9])\<rparr>"

definition demoStorage :: storage where
  "demoStorage =
     \<lparr>entries = [''certs/01'' \<mapsto> [1], ''revoked/02'' \<mapsto> [2], ''revoked/03'' \<mapsto> [],
                 ''revoked/04'' \<mapsto> [4]],
      listing = (\<lambda>p. if p = ''certs/'' then [''01'']
                      else if p = ''revoked/'' then [''02'', ''03'', ''04''] else []),
      list_err = (\<lambda>p. None),
      get_err = (\<lambda>k. None),
      delete_err = (\<lambda>k. None),
      put_err = (\<lambda>k. None)\<rparr>"

definition inactiveStatus :: tidyStatus where
  "inactiveStatus =
     \<lparr>safetyBuffer = 0, tidyCertStore = False, tidyRevokedCerts = False, tidyRevokedAssocs = False,
      state = tidyStatusInactive, err = None, timeStarted = zeroTime, timeFinished = zeroTime,
      message = [], certStoreDeletedCount = 0, revokedCertDeletedCount = 0,
      missingIssuerCertCount = 0\<rparr>"

definition demoBackend :: backend where
  "demoBackend =
     \<lparr>tidyCASGuard = 0,
      tidyStatus = inactiveStatus,
      storage = demoStorage,
      clock = (\<lambda>n. 5000 * 1000000000),
      ticks = 0,
      issuerMap = Inr [(''root'', rootCert)],
      revocationConfig = Inr \<lparr>AutoRebuild = False\<rparr>,
      rebuild_err = None,
      perfSecondary = False,
      localMount = False,
      calls = [],
      statusLog = []\<rparr>"

definition demoRequest :: fieldData where
  "demoRequest =
     \<lparr>safety_buffer = 3600, tidy_cert_store = True, tidy_revoked_certs = True,
      tidy_revocation_list = False, tidy_revoked_cert_issuer_associations = True\<rparr>"

definition demoConfig :: tidyConfig where
  "demoConfig =
     \<lparr>CertStore = True, RevokedCerts = True, IssuerAssocs = True,
      SafetyBuffer = 3600 * 1000000000\<rparr>"

definition assocOnlyConfig :: tidyConfig where
  "assocOnlyConfig =
     \<lparr>CertStore = False, RevokedCerts = False, IssuerAssocs = True,
      SafetyBuffer = 3600 * 1000000000\<rparr>"

definition demoLoop :: revLoop where
  "demoLoop =
     \<lparr>rebuildCRL = False, fixedIssuers = 0,
      revInfo = \<lparr>CertificateBytes = [], RevocationTime = 0, CertificateIssuer = []\<rparr>\<rparr>"

section \<open>Reading the traces\<close>






text \<open>The example backend with a storage whose \<open>List\<close> fails under \<open>revoked/\<close>.\<close>

definition failingBackend :: backend where
  "failingBackend =
     demoBackend\<lparr>storage := demoStorage
       \<lparr>list_err := (\<lambda>p. if p = ''revoked/'' then Some (External ''storage unavailable'') else None)\<rparr>\<rparr>"

definition revokedOnlyConfig :: tidyConfig where
  "revokedOnlyConfig =
     \<lparr>CertStore = False, RevokedCerts = True, IssuerAssocs = False,
      SafetyBuffer = 3600 * 1000000000\<rparr>"

text \<open>
  The run guard's invariant on the interleaved system: at most one goroutine is started
  and not finished, and the guard is 1 exactly while there is one.
\<close>

definition guardInv :: "backend \<times> goroutine list \<Rightarrow> bool" where
  "guardInv s = (length (snd s) \<le> 1 \<and> tidyCASGuard (fst s) = (if snd s = [] then 0 else 1))"

section \<open>The status state machine\<close>

definition countersLe :: "tidyStatus \<Rightarrow> tidyStatus \<Rightarrow> bool" where
  "countersLe a b =
     (certStoreDeletedCount a \<le> certStoreDeletedCount b
      \<and> revokedCertDeletedCount a \<le> revokedCertDeletedCount b
      \<and> missingIssuerCertCount a \<le> missingIssuerCertCount b)"

definition countersZero :: "tidyStatus \<Rightarrow> bool" where
  "countersZero a =
     (certStoreDeletedCount a = 0 \<and> revokedCertDeletedCount a = 0 \<and> missingIssuerCertCount a = 0)"

text \<open>
  The transitions of the status from one value to the next: a run starts from a state
  that is not \<open>Running\<close>, with every counter zero; within a run the state stays \<open>Running\<close>
  and no counter decreases; a run stops from \<open>Running\<close> into \<open>Finished\<close> or \<open>Error\<close> with the
  counters as they were. Nothing leads back to \<open>Inactive\<close>.
\<close>

definition validTransition :: "tidyStatus \<Rightarrow> tidyStatus \<Rightarrow> bool" where
  "validTransition a b =
     (case state b of
        tidyStatusInactive \<Rightarrow> False
      | tidyStatusStarted \<Rightarrow>
          if state a = tidyStatusStarted then countersLe a b else countersZero b
      | tidyStatusFinished \<Rightarrow> state a = tidyStatusStarted \<and> countersLe a b \<and> countersLe b a
      | tidyStatusError \<Rightarrow> state a = tidyStatusStarted \<and> countersLe a b \<and> countersLe b a)"

text \<open>
  What a part of a run does to the status between two backends: the values it adds to the
  log (the latest first) are all \<open>Running\<close>, from each to the next no counter decreases,
  the status is the latest of them, the three counters grow by at most \<open>kc\<close>, \<open>kr\<close> and \<open>km\<close>,
  and the listings of the storage are as before.
\<close>

definition advances :: "nat \<Rightarrow> nat \<Rightarrow> nat \<Rightarrow> backend \<Rightarrow> backend \<Rightarrow> bool" where
  "advances kc kr km b b' =
     (\<exists>new. statusLog b' = new @ statusLog b
         \<and> tidyStatus b' = hd (new @ [tidyStatus b])
         \<and> (\<forall>st \<in> set new. state st = tidyStatusStarted)
         \<and> successively (\<lambda>y x. countersLe x y) (new @ [tidyStatus b])
         \<and> unat (certStoreDeletedCount (tidyStatus b')) \<le> unat (certStoreDeletedCount (tidyStatus b)) + kc
         \<and> unat (revokedCertDeletedCount (tidyStatus b'))
              \<le> unat (revokedCertDeletedCount (tidyStatus b)) + kr
         \<and> unat (missingIssuerCertCount (tidyStatus b'))
              \<le> unat (missingIssuerCertCount (tidyStatus b)) + km
         \<and> listing (storage b') = listing (storage b))"

text \<open>
  What the status is while the one goroutine stands at each of its steps: \<open>Running\<close> from
  \<open>tidyStatusStart\<close> (with every counter zero right after it) to \<open>tidyStatusStop\<close>, and not
  \<open>Running\<close> before and after.
\<close>

fun stageOk :: "goroutine list \<Rightarrow> tidyStatus \<Rightarrow> bool" where
  "stageOk [] st = (state st \<noteq> tidyStatusStarted)"
| "stageOk [Spawned config] st = (state st \<noteq> tidyStatusStarted)"
| "stageOk [Tidying config] st = (state st = tidyStatusStarted \<and> countersZero st)"
| "stageOk [Stopping e] st = (state st = tidyStatusStarted)"
| "stageOk [Exiting] st = (state st \<noteq> tidyStatusStarted)"
| "stageOk (g # h # gs) st = False"

text \<open>
  The invariant of the interleaved system started in \<open>b0\<close>: the values the status has
  taken since (the latest first) follow one another by valid transitions, the status is
  the latest, the goroutine's step agrees with the status, and the storage lists what it
  listed.
\<close>

definition statusInv :: "backend \<Rightarrow> backend \<times> goroutine list \<Rightarrow> bool" where
  "statusInv b0 s =
     (\<exists>new. statusLog (fst s) = new @ statusLog b0
         \<and> tidyStatus (fst s) = hd (new @ [tidyStatus b0])
         \<and> successively (\<lambda>y x. validTransition x y) (new @ [tidyStatus b0])
         \<and> listing (storage (fst s)) = listing (storage b0)
         \<and> stageOk (snd s) (tidyStatus (fst s)))"

text \<open>
  An environment whose decoder does what \<open>encoding/json\<close> does with a struct that already
  holds values: a field that the JSON does not mention keeps the value the struct holds.
  The bytes \<open>[6]\<close> stand for an entry stored without an issuer reference (no
  \<open>issuer_id\<close> key), the bytes \<open>[4]\<close> for an entry that names the issuer \<open>root\<close>.
\<close>

definition legacyEnv :: env where
  "legacyEnv =
     demoEnv\<lparr>DecodeJSON :=
       (\<lambda>bs ri. if bs = [4]
          then Inr \<lparr>CertificateBytes = [1], RevocationTime = 5, CertificateIssuer = ''root''\<rparr>
          else if bs = [6]
          then Inr (ri\<lparr>CertificateBytes := [1], RevocationTime := 7\<rparr>)
          else Inl (External ''unexpected end of JSON input''))\<rparr>"

text \<open>
  A revocation store with the entry \<open>04\<close> (issuer reference \<open>root\<close>) and the entry \<open>06\<close>
  (stored without an issuer reference), listed in this order and in the other.
\<close>

definition legacyStorage :: storage where
  "legacyStorage =
     demoStorage
       \<lparr>entries := [''revoked/04'' \<mapsto> [4], ''revoked/06'' \<mapsto> [6]],
        listing := (\<lambda>p. if p = ''revoked/'' then [''04'', ''06''] else [])\<rparr>"

definition legacyBackend :: backend where
  "legacyBackend = demoBackend\<lparr>storage := legacyStorage\<rparr>"

definition legacyFirstBackend :: backend where
  "legacyFirstBackend =
     demoBackend\<lparr>storage := legacyStorage
       \<lparr>listing := (\<lambda>p. if p = ''revoked/'' then [''06'', ''04''] else [])\<rparr>\<rparr>"

section \<open>Facts about the example backend\<close>

lemma demo_facts:
  "get_err (storage demoBackend) ''certs/01'' = None"
  "entries (storage demoBackend) ''certs/01'' = Some [1]"
  "delete_err (storage demoBackend) ''certs/01'' = None"
  "ParseCertificate demoEnv [1] = Inr demoCert"
  "NotAfter demoCert + sint (SafetyBuffer demoConfig) = 4600 * 1000000000"
  "certStoreDeletedCount (tidyStatus demoBackend) = 0"
  by (simp_all add: demoBackend_def demoStorage_def demoEnv_def demoCert_def demoConfig_def
       inactiveStatus_def)

lemma demo_status_facts:
  "\<not> (perfSecondary demoBackend \<and> \<not> localMount demoBackend)"
  "state (tidyStatus demoBackend) = tidyStatusInactive"
  "\<not> (perfSecondary (tidyStatusMessage m (tidyStatusStart c demoBackend))
       \<and> \<not> localMount (tidyStatusMessage m (tidyStatusStart c demoBackend)))"
  "message (tidyStatus (tidyStatusMessage m (tidyStatusStart c demoBackend))) = m"
  by (simp_all add: demoBackend_def inactiveStatus_def tidyStatusMessage_def tidyStatusStart_def
        setStatus_def timeNow_def)

section \<open>Validation of the start request\<close>

text \<open>
  C7. A start request whose \<open>safety_buffer\<close> is below 1 gets the user error response
  "safety_buffer must be greater than zero"; the handler returns before the
  compare-and-swap, so the backend (run guard and tidy status included) is unchanged and
  no goroutine is started.
\<close>

theorem pathTidyWrite_rejects_safety_buffer:
  "sint (safety_buffer d) < 1 \<Longrightarrow>
     pathTidyWrite d b =
       ((Some (ErrorResponse ''safety_buffer must be greater than zero''), None), None, b)
     \<and> sys_step env (b, running) (Request d) = (b, running)"
  by (simp add: pathTidyWrite_def)

theorem pathTidyWrite_rejects_safety_buffer_witness:
  "sint (safety_buffer (demoRequest\<lparr>safety_buffer := 0\<rparr>)) < 1 \<and>
   pathTidyWrite (demoRequest\<lparr>safety_buffer := 0\<rparr>) demoBackend =
     ((Some (ErrorResponse ''safety_buffer must be greater than zero''), None), None, demoBackend)
   \<and> sys_step demoEnv (demoBackend, []) (Request (demoRequest\<lparr>safety_buffer := 0\<rparr>)) = (demoBackend, [])"
proof -
  have h: "sint (safety_buffer (demoRequest\<lparr>safety_buffer := 0\<rparr>)) < 1"
    by (simp add: demoRequest_def)
  show ?thesis
    using h pathTidyWrite_rejects_safety_buffer [OF h, of demoBackend demoEnv "[]"] by simp
qed

section \<open>The status snapshot\<close>

text \<open>
  C9. When the status read is served (the node is not a performance secondary of a
  non-local mount): in state \<open>Inactive\<close> the snapshot reports \<open>state = "Inactive"\<close> and
  every other field as nil or absent; \<open>tidyStatusStop\<close> stamps \<open>timeFinished\<close> with the
  current time, stores the error and sets the state to \<open>Finished\<close> for a nil error and to
  \<open>Error\<close> otherwise; the snapshot after a stop reports \<open>time_finished\<close>, and in state
  \<open>Finished\<close> a nil message and a nil error, in state \<open>Error\<close> the preserved progress
  message and the error's text.
\<close>

theorem status_snapshot:
  assumes "\<not> (perfSecondary b \<and> \<not> localMount b)"
  shows "(state (tidyStatus b) = tidyStatusInactive \<longrightarrow>
            (\<exists>resp. pathTidyStatusRead b = (Some resp, None)
               \<and> Data resp ''state'' = Some (VString ''Inactive'')
               \<and> (\<forall>k. k \<noteq> ''state'' \<longrightarrow> Data resp k = None \<or> Data resp k = Some VNil)))
       \<and> timeFinished (tidyStatus (tidyStatusStop e b)) = clock b (ticks b)
       \<and> state (tidyStatus (tidyStatusStop e b))
            = (if e = None then tidyStatusFinished else tidyStatusError)
       \<and> err (tidyStatus (tidyStatusStop e b)) = e
       \<and> (\<exists>resp. pathTidyStatusRead (tidyStatusStop e b) = (Some resp, None)
             \<and> Data resp ''time_finished'' = Some (VTime (clock b (ticks b)))
             \<and> (case e of
                   None \<Rightarrow> Data resp ''state'' = Some (VString ''Finished'')
                         \<and> Data resp ''message'' = Some VNil
                         \<and> Data resp ''error'' = Some VNil
                 | Some x \<Rightarrow> Data resp ''state'' = Some (VString ''Error'')
                         \<and> Data resp ''message'' = Some (VString (message (tidyStatus b)))
                         \<and> Data resp ''error'' = Some (VErrorText x)))"
  using assms
  by (cases e)
     (auto simp: pathTidyStatusRead_def tidyStatusStop_def timeNow_def setStatus_def
        emptyResponse_def Let_def inactiveData_def)

theorem status_snapshot_witness:
  "\<not> (perfSecondary demoBackend \<and> \<not> localMount demoBackend)
   \<and> state (tidyStatus demoBackend) = tidyStatusInactive
   \<and> (\<exists>resp. pathTidyStatusRead demoBackend = (Some resp, None)
         \<and> Data resp ''state'' = Some (VString ''Inactive'')
         \<and> Data resp ''message'' \<noteq> Some (VString []))
   \<and> (\<exists>resp. pathTidyStatusRead
                 (tidyStatusStop None (tidyStatusMessage ''checking'' (tidyStatusStart demoConfig demoBackend)))
               = (Some resp, None)
         \<and> Data resp ''state'' = Some (VString ''Finished'')
         \<and> Data resp ''message'' = Some VNil)
   \<and> (\<exists>resp. pathTidyStatusRead
                 (tidyStatusStop (Some (External ''boom''))
                    (tidyStatusMessage ''checking'' (tidyStatusStart demoConfig demoBackend)))
               = (Some resp, None)
         \<and> Data resp ''state'' = Some (VString ''Error'')
         \<and> Data resp ''message'' = Some (VString ''checking'')
         \<and> Data resp ''error'' = Some (VErrorText (External ''boom'')))"
proof -
  let ?run = "tidyStatusMessage ''checking'' (tidyStatusStart demoConfig demoBackend)"
  from status_snapshot [OF demo_status_facts(1), of None] demo_status_facts(2)
  obtain r1 where r1: "pathTidyStatusRead demoBackend = (Some r1, None)"
      "Data r1 ''state'' = Some (VString ''Inactive'')"
      "\<forall>k. k \<noteq> ''state'' \<longrightarrow> Data r1 k = None \<or> Data r1 k = Some VNil"
    by blast
  from r1(3) have "Data r1 ''message'' = None \<or> Data r1 ''message'' = Some VNil"
    by simp
  then have m1: "Data r1 ''message'' \<noteq> Some (VString [])"
    by auto
  from status_snapshot [OF demo_status_facts(3), of "''checking''" demoConfig None]
  obtain r2 where r2: "pathTidyStatusRead (tidyStatusStop None ?run) = (Some r2, None)"
      "Data r2 ''state'' = Some (VString ''Finished'')" "Data r2 ''message'' = Some VNil"
    by auto
  from status_snapshot [OF demo_status_facts(3), of "''checking''" demoConfig "Some (External ''boom'')"]
  obtain r3 where r3: "pathTidyStatusRead (tidyStatusStop (Some (External ''boom'')) ?run) = (Some r3, None)"
      "Data r3 ''state'' = Some (VString ''Error'')"
      "Data r3 ''message'' = Some (VString (message (tidyStatus ?run)))"
      "Data r3 ''error'' = Some (VErrorText (External ''boom''))"
    by auto
  from r3(3) have m3: "Data r3 ''message'' = Some (VString ''checking'')"
    by (simp only: demo_status_facts(4))
  show ?thesis
    using demo_status_facts(1,2) r1(1,2) m1 r2 r3(1,2,4) m3 by blast
qed

section \<open>The certificate store tidier: expiry\<close>



section \<open>The revocation store tidier: one entry\<close>

lemmas status_defs = setStatus_def tidyStatusMessage_def tidyStatusIncCertStoreCount_def
  tidyStatusIncRevokedCertCount_def tidyStatusIncMissingIssuerCertCount_def

lemmas storage_defs = storage_Get_def storage_Delete_def storage_Put_def storage_List_def

lemma associate_result:
  "fst (associateRevokedCertWithIsssuer env ri c m) = (\<exists>p \<in> set m. issuerMatches env c (snd p))"
  "\<not> fst (associateRevokedCertWithIsssuer env ri c m) \<Longrightarrow>
     snd (associateRevokedCertWithIsssuer env ri c m) = ri"
  "fst (associateRevokedCertWithIsssuer env ri c m) \<Longrightarrow>
     \<exists>p \<in> set m. issuerMatches env c (snd p)
        \<and> snd (associateRevokedCertWithIsssuer env ri c m) = ri\<lparr>CertificateIssuer := fst p\<rparr>"
  by (induction env ri c m rule: associateRevokedCertWithIsssuer.induct) auto

lemma tidyRevokedEntry_parsed:
  assumes "get_err (storage b) (''revoked/'' @ serial) = None"
      and "entries (storage b) (''revoked/'' @ serial) = Some v" and "v \<noteq> []"
      and "DecodeJSON env v (revInfo l) = Inr ri"
      and "ParseCertificate env (CertificateBytes ri) = Inr cert"
  shows "tidyRevokedEntry env config issuerIDCertMap n i serial l b =
     (case repairIssuer env config issuerIDCertMap cert (l\<lparr>revInfo := ri\<rparr>)
             (tidyStatusMessage
                (''Tidying revoked certificates: checking certificate '' @ itoa i @ '' of '' @ itoa n) b) of
        (storeCert, l1, b1) \<Rightarrow>
          (case removeExpired config serial cert storeCert l1 b1 of
             (Some e, storeCert2, l2, b2) \<Rightarrow> (Some e, l2, b2)
           | (None, storeCert2, l2, b2) \<Rightarrow>
               (case writeBack env serial storeCert2 l2 b2 of (e, b3) \<Rightarrow> (e, l2, b3))))"
  using assms
  by (simp add: tidyRevokedEntry_def Let_def storage_Get_def tidyStatusMessage_def setStatus_def)

lemma repairIssuer_invalid:
  assumes "IssuerAssocs config" and "\<not> isRevInfoIssuerValid (revInfo l) issuerIDCertMap"
  shows "repairIssuer env config issuerIDCertMap cert l b =
     (True,
      l\<lparr>fixedIssuers := fixedIssuers l
           + (if fst (associateRevokedCertWithIsssuer env ((revInfo l)\<lparr>CertificateIssuer := []\<rparr>)
                        cert issuerIDCertMap) then 1 else 0),
        revInfo := snd (associateRevokedCertWithIsssuer env ((revInfo l)\<lparr>CertificateIssuer := []\<rparr>)
                          cert issuerIDCertMap)\<rparr>,
      tidyStatusIncMissingIssuerCertCount b)"
  using assms
  by (cases "associateRevokedCertWithIsssuer env ((revInfo l)\<lparr>CertificateIssuer := []\<rparr>)
               cert issuerIDCertMap")
     (auto simp: repairIssuer_def Let_def)

lemma repairIssuer_valid:
  assumes "\<not> IssuerAssocs config \<or> isRevInfoIssuerValid (revInfo l) issuerIDCertMap"
  shows "repairIssuer env config issuerIDCertMap cert l b = (False, l, b)"
  using assms by (auto simp: repairIssuer_def)

lemma removeExpired_kept:
  assumes "\<not> (RevokedCerts config \<and> NotAfter cert + sint (SafetyBuffer config) < clock b (ticks b))"
  shows "removeExpired config serial cert storeCert l b =
     (None, storeCert, l, if RevokedCerts config then b\<lparr>ticks := Suc (ticks b)\<rparr> else b)"
  using assms by (auto simp: removeExpired_def timeNow_def time_After_def time_Add_def)

lemma removeExpired_expired:
  assumes "RevokedCerts config" and "NotAfter cert + sint (SafetyBuffer config) < clock b (ticks b)"
  shows "removeExpired config serial cert storeCert l b =
     (case storage_Delete (''revoked/'' @ serial) (b\<lparr>ticks := Suc (ticks b)\<rparr>) of
        (Some e, b2) \<Rightarrow>
          (Some (Errorf ''error deleting serial %q from revoked list: %w'' [serial] e), storeCert, l, b2)
      | (None, b2) \<Rightarrow>
          (case storage_Delete (''certs/'' @ serial) b2 of
             (Some e, b3) \<Rightarrow>
               (Some (Errorf ''error deleting serial %q from store when tidying revoked: %w'' [serial] e),
                storeCert, l, b3)
           | (None, b3) \<Rightarrow>
               (None, False, l\<lparr>rebuildCRL := True\<rparr>, tidyStatusIncRevokedCertCount b3)))"
  using assms by (simp add: removeExpired_def timeNow_def time_After_def time_Add_def)

lemma demo_revoked_facts:
  "get_err (storage demoBackend) k = None"
  "delete_err (storage demoBackend) k = None"
  "put_err (storage demoBackend) k = None"
  "entries (storage demoBackend) ''revoked/02'' = Some [2]"
  "entries (storage demoBackend) ''revoked/03'' = Some []"
  "entries (storage demoBackend) ''revoked/04'' = Some [4]"
  "DecodeJSON demoEnv [2] ri
     = Inr \<lparr>CertificateBytes = [1], RevocationTime = 5, CertificateIssuer = ''old''\<rparr>"
  "DecodeJSON demoEnv [4] ri
     = Inr \<lparr>CertificateBytes = [1], RevocationTime = 5, CertificateIssuer = ''root''\<rparr>"
  "clock demoBackend t = 5000 * 1000000000"
  "calls demoBackend = []"
  "revokedCertDeletedCount (tidyStatus demoBackend) = 0"
  "missingIssuerCertCount (tidyStatus demoBackend) = 0"
  "\<not> isRevInfoIssuerValid \<lparr>CertificateBytes = [1], RevocationTime = 5, CertificateIssuer = ''old''\<rparr>
       [(''root'', rootCert)]"
  "isRevInfoIssuerValid \<lparr>CertificateBytes = [1], RevocationTime = 5, CertificateIssuer = ''root''\<rparr>
       [(''root'', rootCert)]"
  "issuerMatches demoEnv demoCert rootCert"
  "StorageEntryJSON demoEnv k ri = Inr (if CertificateIssuer ri = ''root'' then [4] else [5])"
  by (simp_all add: demoBackend_def demoStorage_def demoEnv_def inactiveStatus_def
        isRevInfoIssuerValid_def rootCert_def)

lemma demo_config_facts:
  "IssuerAssocs demoConfig" "RevokedCerts demoConfig" "CertStore demoConfig"
  "SafetyBuffer demoConfig = 3600 * 1000000000"
  "IssuerAssocs assocOnlyConfig" "\<not> RevokedCerts assocOnlyConfig" "\<not> CertStore assocOnlyConfig"
  by (simp_all add: demoConfig_def assocOnlyConfig_def)



text \<open>
  C5. With \<open>IssuerAssocs\<close> and \<open>RevokedCerts\<close> both set, on a decoded and parsed entry
  that is past \<open>NotAfter + SafetyBuffer\<close>: the issuer repair has been evaluated first (the
  missing-issuer count has grown for an invalid reference and the record in memory is the
  repaired one, also when a \<open>Delete\<close> fails), the only calls made on the storage are the
  \<open>Delete\<close> of \<open>revoked/<serial>\<close> and then of \<open>certs/<serial>\<close>, and no \<open>Put\<close>: the pending
  rewrite is dropped and the deleted entry is not written back.
\<close>

theorem tidyRevokedEntry_deletion_wins:
  assumes "IssuerAssocs config" and "RevokedCerts config"
      and "get_err (storage b) (''revoked/'' @ serial) = None"
      and "entries (storage b) (''revoked/'' @ serial) = Some v" and "v \<noteq> []"
      and "DecodeJSON env v (revInfo l) = Inr ri"
      and "ParseCertificate env (CertificateBytes ri) = Inr cert"
      and "NotAfter cert + sint (SafetyBuffer config) < clock b (ticks b)"
  shows "\<exists>e l' b'. tidyRevokedEntry env config issuerIDCertMap n i serial l b = (e, l', b')
       \<and> calls b' = (if delete_err (storage b) (''revoked/'' @ serial) = None
                      then [CallDelete (''certs/'' @ serial)] else [])
                     @ [CallDelete (''revoked/'' @ serial)] @ calls b
       \<and> missingIssuerCertCount (tidyStatus b')
           = missingIssuerCertCount (tidyStatus b)
             + (if isRevInfoIssuerValid ri issuerIDCertMap then 0 else 1)
       \<and> revInfo l' = (if isRevInfoIssuerValid ri issuerIDCertMap then ri
                       else snd (associateRevokedCertWithIsssuer env (ri\<lparr>CertificateIssuer := []\<rparr>)
                                   cert issuerIDCertMap))
       \<and> (delete_err (storage b) (''revoked/'' @ serial) = None
            \<and> delete_err (storage b) (''certs/'' @ serial) = None \<longrightarrow>
          e = None \<and> rebuildCRL l'
          \<and> entries (storage b')
              = (entries (storage b))(''revoked/'' @ serial := None, ''certs/'' @ serial := None)
          \<and> revokedCertDeletedCount (tidyStatus b') = revokedCertDeletedCount (tidyStatus b) + 1)"
proof (cases "isRevInfoIssuerValid ri issuerIDCertMap")
  case True
  show ?thesis
    unfolding tidyRevokedEntry_parsed [OF assms(3-7)]
    using assms(1,2,8) True
    by (simp add: repairIssuer_valid removeExpired_expired writeBack_def storage_Delete_def
          status_defs split: option.splits)
next
  case False
  show ?thesis
    unfolding tidyRevokedEntry_parsed [OF assms(3-7)]
    using assms(1,2,8) False
    by (simp add: repairIssuer_invalid removeExpired_expired writeBack_def storage_Delete_def
          status_defs split: option.splits)
qed

theorem tidyRevokedEntry_deletion_wins_witness:
  "IssuerAssocs demoConfig \<and> RevokedCerts demoConfig
   \<and> get_err (storage demoBackend) (''revoked/'' @ ''02'') = None
   \<and> entries (storage demoBackend) (''revoked/'' @ ''02'') = Some [2] \<and> [2 :: byte] \<noteq> []
   \<and> DecodeJSON demoEnv [2] (revInfo demoLoop)
        = Inr \<lparr>CertificateBytes = [1], RevocationTime = 5, CertificateIssuer = ''old''\<rparr>
   \<and> ParseCertificate demoEnv [1] = Inr demoCert
   \<and> NotAfter demoCert + sint (SafetyBuffer demoConfig) < clock demoBackend (ticks demoBackend)
   \<and> (\<exists>e l' b'. tidyRevokedEntry demoEnv demoConfig [(''root'', rootCert)] 3 0 ''02'' demoLoop demoBackend
                  = (e, l', b')
         \<and> e = None
         \<and> calls b' = [CallDelete ''certs/02'', CallDelete ''revoked/02'']
         \<and> missingIssuerCertCount (tidyStatus b') = 1
         \<and> entries (storage b') ''revoked/02'' = None)"
proof -
  have h: "get_err (storage demoBackend) (''revoked/'' @ ''02'') = None"
      "entries (storage demoBackend) (''revoked/'' @ ''02'') = Some [2]" "[2 :: byte] \<noteq> []"
      "DecodeJSON demoEnv [2] (revInfo demoLoop)
        = Inr \<lparr>CertificateBytes = [1], RevocationTime = 5, CertificateIssuer = ''old''\<rparr>"
      "ParseCertificate demoEnv (CertificateBytes
          \<lparr>CertificateBytes = [1], RevocationTime = 5, CertificateIssuer = ''old''\<rparr>) = Inr demoCert"
      "NotAfter demoCert + sint (SafetyBuffer demoConfig) < clock demoBackend (ticks demoBackend)"
    by (simp_all add: demo_revoked_facts demo_facts)
  from tidyRevokedEntry_deletion_wins [OF demo_config_facts(1,2) h,
      of "[(''root'', rootCert)]" 3 0]
  show ?thesis
    using h demo_config_facts(1,2)
    by (auto simp: demo_revoked_facts)
qed

text \<open>
  One iteration with \<open>IssuerAssocs\<close> set, on the record \<open>ri\<close> that \<open>DecodeJSON\<close> leaves in the
  loop's \<open>revInfo\<close> (declared before the loop, so it comes with what the iteration before
  left in it): when the issuer reference of \<open>ri\<close> is not valid, the missing-issuer count
  grows by one, the reference is cleared and the association is attempted against the
  whole issuer map (the reference ends as the identifier of a known issuer that matches,
  or stays cleared when none matches), and unless the entry is removed as expired it is
  written back to \<open>revoked/<serial>\<close>; when the reference of \<open>ri\<close> is valid, the count and
  the record are unchanged, no \<open>Put\<close> is made, and unless the entry is removed as expired
  the storage is untouched.
\<close>

lemma tidyRevokedEntry_issuer_repair:
  assumes "IssuerAssocs config"
      and "get_err (storage b) (''revoked/'' @ serial) = None"
      and "entries (storage b) (''revoked/'' @ serial) = Some v" and "v \<noteq> []"
      and "DecodeJSON env v (revInfo l) = Inr ri"
      and "ParseCertificate env (CertificateBytes ri) = Inr cert"
  shows "\<exists>e l' b'. tidyRevokedEntry env config issuerIDCertMap n i serial l b = (e, l', b')
       \<and> (if isRevInfoIssuerValid ri issuerIDCertMap then
            missingIssuerCertCount (tidyStatus b') = missingIssuerCertCount (tidyStatus b)
            \<and> revInfo l' = ri \<and> fixedIssuers l' = fixedIssuers l
            \<and> (\<forall>k x. CallPut k x \<in> set (calls b') \<longrightarrow> CallPut k x \<in> set (calls b))
            \<and> (\<not> (RevokedCerts config
                    \<and> NotAfter cert + sint (SafetyBuffer config) < clock b (ticks b)) \<longrightarrow>
                 e = None \<and> storage b' = storage b \<and> calls b' = calls b)
          else
            missingIssuerCertCount (tidyStatus b') = missingIssuerCertCount (tidyStatus b) + 1
            \<and> revInfo l' = snd (associateRevokedCertWithIsssuer env (ri\<lparr>CertificateIssuer := []\<rparr>)
                                  cert issuerIDCertMap)
            \<and> (if \<exists>p \<in> set issuerIDCertMap. issuerMatches env cert (snd p)
               then (\<exists>p \<in> set issuerIDCertMap. issuerMatches env cert (snd p)
                        \<and> CertificateIssuer (revInfo l') = fst p)
                    \<and> fixedIssuers l' = fixedIssuers l + 1
               else CertificateIssuer (revInfo l') = [] \<and> fixedIssuers l' = fixedIssuers l)
            \<and> (\<not> (RevokedCerts config
                    \<and> NotAfter cert + sint (SafetyBuffer config) < clock b (ticks b)) \<longrightarrow>
                 (case StorageEntryJSON env (''revoked/'' @ serial) (revInfo l') of
                    Inl x \<Rightarrow> e \<noteq> None \<and> calls b' = calls b
                  | Inr enc \<Rightarrow>
                      calls b' = CallPut (''revoked/'' @ serial) enc # calls b
                      \<and> (put_err (storage b) (''revoked/'' @ serial) = None \<longrightarrow>
                           e = None
                           \<and> entries (storage b')
                               = (entries (storage b))(''revoked/'' @ serial \<mapsto> enc)))))"
proof (cases "isRevInfoIssuerValid ri issuerIDCertMap")
  case True
  show ?thesis
  proof (cases "RevokedCerts config \<and> NotAfter cert + sint (SafetyBuffer config) < clock b (ticks b)")
    case expired: True
    show ?thesis
      unfolding tidyRevokedEntry_parsed [OF assms(2-6)]
      using assms(1) True expired
      by (simp add: repairIssuer_valid removeExpired_expired writeBack_def storage_Delete_def
            status_defs split: option.splits)
  next
    case kept: False
    show ?thesis
      unfolding tidyRevokedEntry_parsed [OF assms(2-6)]
      using assms(1) True kept
      by (simp add: repairIssuer_valid removeExpired_kept writeBack_def status_defs)
  qed
next
  case False
  let ?a = "associateRevokedCertWithIsssuer env (ri\<lparr>CertificateIssuer := []\<rparr>) cert issuerIDCertMap"
  have assoc: "if \<exists>p \<in> set issuerIDCertMap. issuerMatches env cert (snd p)
       then (\<exists>p \<in> set issuerIDCertMap. issuerMatches env cert (snd p)
                \<and> CertificateIssuer (snd ?a) = fst p) \<and> fst ?a
       else CertificateIssuer (snd ?a) = [] \<and> \<not> fst ?a"
    using associate_result [of env "ri\<lparr>CertificateIssuer := []\<rparr>" cert issuerIDCertMap]
    by (cases "fst ?a") auto
  show ?thesis
  proof (cases "RevokedCerts config \<and> NotAfter cert + sint (SafetyBuffer config) < clock b (ticks b)")
    case expired: True
    show ?thesis
      unfolding tidyRevokedEntry_parsed [OF assms(2-6)]
      using assms(1) False expired assoc
      by (simp add: repairIssuer_invalid removeExpired_expired writeBack_def storage_Delete_def
            status_defs split: option.splits if_splits)
  next
    case kept: False
    show ?thesis
      unfolding tidyRevokedEntry_parsed [OF assms(2-6)]
      using assms(1) False kept assoc
      by (simp add: repairIssuer_invalid removeExpired_kept writeBack_def storage_Put_def
            status_defs split: option.splits if_splits sum.splits)
  qed
qed

lemma tidyRevokedEntry_issuer_repair_example:
  "IssuerAssocs assocOnlyConfig
   \<and> get_err (storage demoBackend) (''revoked/'' @ ''02'') = None
   \<and> entries (storage demoBackend) (''revoked/'' @ ''02'') = Some [2] \<and> [2 :: byte] \<noteq> []
   \<and> DecodeJSON demoEnv [2] (revInfo demoLoop)
        = Inr \<lparr>CertificateBytes = [1], RevocationTime = 5, CertificateIssuer = ''old''\<rparr>
   \<and> ParseCertificate demoEnv [1] = Inr demoCert
   \<and> \<not> isRevInfoIssuerValid \<lparr>CertificateBytes = [1], RevocationTime = 5, CertificateIssuer = ''old''\<rparr>
         [(''root'', rootCert)]
   \<and> (\<exists>e l' b'. tidyRevokedEntry demoEnv assocOnlyConfig [(''root'', rootCert)] 3 0 ''02'' demoLoop
                    demoBackend = (e, l', b')
         \<and> e = None
         \<and> missingIssuerCertCount (tidyStatus b') = 1
         \<and> CertificateIssuer (revInfo l') = ''root''
         \<and> fixedIssuers l' = 1
         \<and> calls b' = [CallPut ''revoked/02'' [4]]
         \<and> entries (storage b') ''revoked/02'' = Some [4])
   \<and> entries (storage demoBackend) (''revoked/'' @ ''04'') = Some [4] \<and> [4 :: byte] \<noteq> []
   \<and> DecodeJSON demoEnv [4] (revInfo demoLoop)
        = Inr \<lparr>CertificateBytes = [1], RevocationTime = 5, CertificateIssuer = ''root''\<rparr>
   \<and> isRevInfoIssuerValid \<lparr>CertificateBytes = [1], RevocationTime = 5, CertificateIssuer = ''root''\<rparr>
         [(''root'', rootCert)]
   \<and> (\<exists>e l' b'. tidyRevokedEntry demoEnv assocOnlyConfig [(''root'', rootCert)] 3 2 ''04'' demoLoop
                    demoBackend = (e, l', b')
         \<and> e = None
         \<and> missingIssuerCertCount (tidyStatus b') = 0
         \<and> CertificateIssuer (revInfo l') = ''root''
         \<and> calls b' = []
         \<and> storage b' = storage demoBackend)"
proof -
  let ?old = "\<lparr>CertificateBytes = [1], RevocationTime = 5, CertificateIssuer = ''old''\<rparr>"
  let ?root = "\<lparr>CertificateBytes = [1], RevocationTime = 5, CertificateIssuer = ''root''\<rparr>"
  have h2: "get_err (storage demoBackend) (''revoked/'' @ ''02'') = None"
      "entries (storage demoBackend) (''revoked/'' @ ''02'') = Some [2]" "[2 :: byte] \<noteq> []"
      "DecodeJSON demoEnv [2] (revInfo demoLoop) = Inr ?old"
      "ParseCertificate demoEnv (CertificateBytes ?old) = Inr demoCert"
    by (simp_all add: demo_revoked_facts demo_facts)
  have h4: "get_err (storage demoBackend) (''revoked/'' @ ''04'') = None"
      "entries (storage demoBackend) (''revoked/'' @ ''04'') = Some [4]" "[4 :: byte] \<noteq> []"
      "DecodeJSON demoEnv [4] (revInfo demoLoop) = Inr ?root"
      "ParseCertificate demoEnv (CertificateBytes ?root) = Inr demoCert"
    by (simp_all add: demo_revoked_facts demo_facts)
  have m: "\<exists>p \<in> set [(''root'', rootCert)]. issuerMatches demoEnv demoCert (snd p)"
    by (simp add: demo_revoked_facts)
  have a: "\<exists>e l' b'. tidyRevokedEntry demoEnv assocOnlyConfig [(''root'', rootCert)] 3 0 ''02'' demoLoop
                    demoBackend = (e, l', b')
         \<and> e = None
         \<and> missingIssuerCertCount (tidyStatus b') = 1
         \<and> CertificateIssuer (revInfo l') = ''root''
         \<and> fixedIssuers l' = 1
         \<and> calls b' = [CallPut ''revoked/02'' [4]]
         \<and> entries (storage b') ''revoked/02'' = Some [4]"
    using tidyRevokedEntry_issuer_repair [OF demo_config_facts(5) h2, of "[(''root'', rootCert)]" 3 0]
      m demo_revoked_facts(13)
    by (auto simp: demo_revoked_facts demo_config_facts demoLoop_def)
  have b: "\<exists>e l' b'. tidyRevokedEntry demoEnv assocOnlyConfig [(''root'', rootCert)] 3 2 ''04'' demoLoop
                    demoBackend = (e, l', b')
         \<and> e = None
         \<and> missingIssuerCertCount (tidyStatus b') = 0
         \<and> CertificateIssuer (revInfo l') = ''root''
         \<and> calls b' = []
         \<and> storage b' = storage demoBackend"
    using tidyRevokedEntry_issuer_repair [OF demo_config_facts(5) h4, of "[(''root'', rootCert)]" 3 2]
      demo_revoked_facts(14)
    by (auto simp: demo_revoked_facts demo_config_facts)
  show ?thesis
    using a b h2 h4 demo_config_facts(5) demo_revoked_facts(13,14)
    by (simp add: demo_facts)
qed

text \<open>
  C6. The claim fails on the code for an entry stored without an issuer reference that
  is scanned after an entry with a valid one. Decoded on its own, the entry \<open>06\<close> has an
  empty reference, which is not valid, and the issuer \<open>root\<close> matches its certificate. In
  the scan of \<open>04\<close> then \<open>06\<close>, \<open>revInfo\<close> still holds the reference \<open>root\<close> of \<open>04\<close> when \<open>06\<close> is
  decoded into it: the entry passes for valid, the missing-issuer count stays 0, nothing
  is written and \<open>06\<close> is stored as before. In the scan of \<open>06\<close> then \<open>04\<close>, on the same
  storage, \<open>06\<close> is counted and written back with the reference \<open>root\<close>.
\<close>

theorem stale_issuer_reference_not_repaired:
  "IssuerAssocs assocOnlyConfig
   \<and> issuerMap legacyBackend = Inr [(''root'', rootCert)]
   \<and> entries (storage legacyBackend) ''revoked/06'' = Some [6]
   \<and> DecodeJSON legacyEnv [6] (revInfo demoLoop)
        = Inr \<lparr>CertificateBytes = [1], RevocationTime = 7, CertificateIssuer = []\<rparr>
   \<and> \<not> isRevInfoIssuerValid \<lparr>CertificateBytes = [1], RevocationTime = 7, CertificateIssuer = []\<rparr>
         [(''root'', rootCert)]
   \<and> issuerMatches legacyEnv demoCert rootCert
   \<and> listing (storage legacyBackend) ''revoked/'' = [''04'', ''06'']
   \<and> fst (doTidyRevocationStore legacyEnv assocOnlyConfig legacyBackend) = None
   \<and> missingIssuerCertCount (tidyStatus (snd (doTidyRevocationStore legacyEnv assocOnlyConfig legacyBackend)))
        = 0
   \<and> calls (snd (doTidyRevocationStore legacyEnv assocOnlyConfig legacyBackend)) = []
   \<and> entries (storage (snd (doTidyRevocationStore legacyEnv assocOnlyConfig legacyBackend))) ''revoked/06''
        = Some [6]
   \<and> listing (storage legacyFirstBackend) ''revoked/'' = [''06'', ''04'']
   \<and> entries (storage legacyFirstBackend) ''revoked/06'' = Some [6]
   \<and> fst (doTidyRevocationStore legacyEnv assocOnlyConfig legacyFirstBackend) = None
   \<and> missingIssuerCertCount
         (tidyStatus (snd (doTidyRevocationStore legacyEnv assocOnlyConfig legacyFirstBackend))) = 1
   \<and> calls (snd (doTidyRevocationStore legacyEnv assocOnlyConfig legacyFirstBackend))
        = [CallPut ''revoked/06'' [4]]"
  by code_simp

section \<open>The revocation store tidier: the CRL rebuild\<close>














section \<open>The orchestrator: errors of the two phases\<close>

text \<open>
  An error of the cert-store phase is returned by \<open>doTidy\<close> at once: the revocation phase
  is not run, the error is stored on the status and the state is \<open>Error\<close>.
\<close>

lemma doTidy_certStore_error:
  assumes "CertStore config" and "doTidyCertStore env config b = (Some e, b1)"
  shows "doTidy env config b = (Some e, b1)"
  using assms by (simp add: doTidy_def)

lemma tidyGoroutine_certStore_error:
  assumes "CertStore config"
      and "doTidyCertStore env config (tidyStatusStart config b) = (Some e, b1)"
  shows "state (tidyStatus (tidyGoroutine env config b)) = tidyStatusError
       \<and> err (tidyStatus (tidyGoroutine env config b)) = Some e
       \<and> calls (tidyGoroutine env config b) = calls b1
       \<and> storage (tidyGoroutine env config b) = storage b1"
  using assms
  by (simp add: tidyGoroutine_def doTidy_def tidyStatusStop_def timeNow_def setStatus_def)

text \<open>
  An error of the revocation phase is dropped by \<open>doTidy\<close> (\<open>return nil\<close> in the branch
  \<open>err != nil\<close>): without a cert-store phase the run always ends in state \<open>Finished\<close> with
  no error stored.
\<close>

lemma doTidy_revocation_error_dropped:
  assumes "\<not> CertStore config"
  shows "fst (doTidy env config b) = None"
  using assms by (auto simp: doTidy_def split: prod.splits option.splits)

lemma tidyGoroutine_revocation_error_dropped:
  assumes "\<not> CertStore config"
  shows "state (tidyStatus (tidyGoroutine env config b)) = tidyStatusFinished
       \<and> err (tidyStatus (tidyGoroutine env config b)) = None"
proof -
  obtain e b2 where d: "doTidy env config (tidyStatusStart config b) = (e, b2)"
    by (cases "doTidy env config (tidyStatusStart config b)") auto
  with doTidy_revocation_error_dropped [OF assms, of env "tidyStatusStart config b"]
  have "e = None" by simp
  with d show ?thesis
    by (simp add: tidyGoroutine_def tidyStatusStop_def timeNow_def setStatus_def)
qed

text \<open>
  C1. The second half of the claim fails on the code: with only \<open>RevokedCerts\<close> set and a
  storage whose \<open>List\<close> of \<open>revoked/\<close> fails, \<open>doTidyRevocationStore\<close> returns the error, yet
  the run ends in state \<open>Finished\<close> with no error on the status, and the snapshot reports
  a nil error.
\<close>

theorem revocation_error_swallowed:
  "RevokedCerts revokedOnlyConfig
   \<and> list_err (storage failingBackend) ''revoked/'' = Some (External ''storage unavailable'')
   \<and> fst (doTidyRevocationStore demoEnv revokedOnlyConfig
             (tidyStatusStart revokedOnlyConfig failingBackend))
        = Some (Errorf ''error fetching list of revoked certs: %w'' []
                  (External ''storage unavailable''))
   \<and> state (tidyStatus (tidyGoroutine demoEnv revokedOnlyConfig failingBackend)) = tidyStatusFinished
   \<and> err (tidyStatus (tidyGoroutine demoEnv revokedOnlyConfig failingBackend)) = None
   \<and> Data (the (fst (pathTidyStatusRead (tidyGoroutine demoEnv revokedOnlyConfig failingBackend))))
        ''error'' = Some VNil
   \<and> Data (the (fst (pathTidyStatusRead (tidyGoroutine demoEnv revokedOnlyConfig failingBackend))))
        ''state'' = Some (VString ''Finished'')"
  by code_simp

section \<open>The run guard\<close>

lemma tidyCertEntry_guard:
  "tidyCASGuard (snd (tidyCertEntry env config n i serial b)) = tidyCASGuard b"
  by (auto simp: tidyCertEntry_def Let_def storage_defs status_defs timeNow_def
        split: sum.splits option.splits)

lemma tidyCertLoop_guard:
  "tidyCASGuard (snd (tidyCertLoop env config n i serials b)) = tidyCASGuard b"
proof (induction serials arbitrary: i b)
  case Nil
  show ?case by simp
next
  case (Cons serial serials)
  show ?case
    using Cons.IH tidyCertEntry_guard [of env config n i serial b]
    by (cases "tidyCertEntry env config n i serial b") (auto split: option.splits)
qed

lemma repairIssuer_guard:
  "repairIssuer env config m cert l b = (sc, l1, b1) \<Longrightarrow> tidyCASGuard b1 = tidyCASGuard b"
  by (auto simp: repairIssuer_def Let_def status_defs split: if_splits prod.splits bool.splits)

lemma removeExpired_guard:
  "removeExpired config serial cert sc l b = (r, sc2, l2, b2) \<Longrightarrow> tidyCASGuard b2 = tidyCASGuard b"
  by (auto simp: removeExpired_def storage_defs status_defs timeNow_def
        split: if_splits option.splits)

lemma writeBack_guard:
  "writeBack env serial sc l b = (r, b3) \<Longrightarrow> tidyCASGuard b3 = tidyCASGuard b"
  by (auto simp: writeBack_def storage_defs split: if_splits option.splits sum.splits)

lemma tidyRevokedEntry_guard:
  "tidyCASGuard (snd (snd (tidyRevokedEntry env config m n i serial l b))) = tidyCASGuard b"
  by (auto simp: tidyRevokedEntry_def Let_def storage_defs status_defs
        split: sum.splits option.splits prod.splits
        dest!: repairIssuer_guard removeExpired_guard writeBack_guard)

lemma tidyRevokedLoop_guard:
  "tidyCASGuard (snd (snd (tidyRevokedLoop env config m n i serials l b))) = tidyCASGuard b"
proof (induction serials arbitrary: i l b)
  case Nil
  show ?case by simp
next
  case (Cons serial serials)
  show ?case
    using Cons.IH tidyRevokedEntry_guard [of env config m n i serial l b]
    by (cases "tidyRevokedEntry env config m n i serial l b") (auto split: option.splits)
qed

lemma doTidyCertStore_guard:
  "tidyCASGuard (snd (doTidyCertStore env config b)) = tidyCASGuard b"
  by (simp add: doTidyCertStore_def tidyCertLoop_guard split: sum.splits)

lemma rebuildAfterScan_guard:
  "tidyCASGuard (snd (rebuildAfterScan l b)) = tidyCASGuard b"
  by (simp add: rebuildAfterScan_def crlBuilder_rebuild_def split: sum.splits option.splits)

lemma doTidyRevocationStore_guard:
  "tidyCASGuard (snd (doTidyRevocationStore env config b)) = tidyCASGuard b"
proof (cases "issuerMap b")
  case (Inl e)
  then show ?thesis by (simp add: doTidyRevocationStore_def)
next
  case m: (Inr m)
  show ?thesis
  proof (cases "storage_List ''revoked/'' b")
    case (Inl e)
    with m show ?thesis by (simp add: doTidyRevocationStore_def)
  next
    case (Inr serials)
    let ?loop = "tidyRevokedLoop env config m (length serials) 0 serials
        \<lparr>rebuildCRL = False, fixedIssuers = 0,
         revInfo = \<lparr>CertificateBytes = [], RevocationTime = 0, CertificateIssuer = []\<rparr>\<rparr> b"
    obtain e l1 b1 where loop: "?loop = (e, l1, b1)"
      by (cases ?loop) auto
    from tidyRevokedLoop_guard [of env config m "length serials" 0 serials
        "\<lparr>rebuildCRL = False, fixedIssuers = 0,
         revInfo = \<lparr>CertificateBytes = [], RevocationTime = 0, CertificateIssuer = []\<rparr>\<rparr>" b] loop
    have "tidyCASGuard b1 = tidyCASGuard b" by simp
    with m Inr loop show ?thesis
      by (cases e) (simp_all add: doTidyRevocationStore_def rebuildAfterScan_guard)
  qed
qed

lemma doTidy_guard: "tidyCASGuard (snd (doTidy env config b)) = tidyCASGuard b"
proof -
  let ?c = "if CertStore config then doTidyCertStore env config b else (None, b)"
  have c: "tidyCASGuard (snd ?c) = tidyCASGuard b"
    by (simp add: doTidyCertStore_guard)
  obtain e b1 where cb: "?c = (e, b1)" by (cases ?c) auto
  with c have g1: "tidyCASGuard b1 = tidyCASGuard b" by simp
  show ?thesis
    using cb g1 doTidyRevocationStore_guard [of env config b1]
    unfolding doTidy_def
    by (cases e; cases "doTidyRevocationStore env config b1")
       (auto simp del: split_paired_All split: option.splits)
qed

lemma tidyStatus_guard:
  "tidyCASGuard (tidyStatusStart config b) = tidyCASGuard b"
  "tidyCASGuard (tidyStatusStop e b) = tidyCASGuard b"
  by (simp_all add: tidyStatusStart_def tidyStatusStop_def timeNow_def setStatus_def)

lemma goroutine_step_guard:
  assumes "goroutine_step env g b = (b1, Some g1)"
  shows "tidyCASGuard b1 = tidyCASGuard b"
proof (cases g)
  case (Tidying config)
  with assms doTidy_guard [of env config b] show ?thesis
    by (auto split: prod.splits)
qed (use assms in \<open>auto simp: tidyStatus_guard\<close>)

lemma goroutine_step_exit:
  "goroutine_step env g b = (b1, None) \<Longrightarrow> g = Exiting \<and> b1 = b\<lparr>tidyCASGuard := 0\<rparr>"
  by (cases g) (auto split: prod.splits)

lemma pathTidyWrite_busy:
  assumes "tidyCASGuard b \<noteq> 0" and "1 \<le> sint (safety_buffer d)"
  shows "pathTidyWrite d b =
     ((Some (AddWarning ''Tidy operation already in progress.'' emptyResponse), None), None, b)"
  using assms by (simp add: pathTidyWrite_def CompareAndSwapUint32_def Let_def)

lemma pathTidyWrite_idle:
  assumes "tidyCASGuard b = 0" and "1 \<le> sint (safety_buffer d)"
  shows "\<exists>r config. pathTidyWrite d b = (r, Some config, b\<lparr>tidyCASGuard := 1\<rparr>)"
  using assms by (simp add: pathTidyWrite_def CompareAndSwapUint32_def Let_def)

lemma pathTidyWrite_invalid:
  assumes "\<not> 1 \<le> sint (safety_buffer d)"
  shows "\<exists>r. pathTidyWrite d b = (r, None, b)"
  using assms by (simp add: pathTidyWrite_def)

lemma tidyGoroutine_guard: "tidyCASGuard (tidyGoroutine env config b) = 0"
  by (simp add: tidyGoroutine_def Let_def split: prod.splits option.splits)

text \<open>The four steps of a goroutine, one after the other, are the run to its end.\<close>

lemma goroutine_steps_run:
  "foldl (sys_step env) (b, [Spawned config]) [Step 0, Step 0, Step 0, Step 0]
     = (tidyGoroutine env config b, [])"
  by (cases "doTidy env config (tidyStatusStart config b)")
     (auto simp: tidyGoroutine_def Let_def split: option.splits)

lemma guardInv_step: "guardInv s \<Longrightarrow> guardInv (sys_step env s ev)"
proof (cases s)
  case (Pair b running)
  assume inv: "guardInv s"
  show ?thesis
  proof (cases ev)
    case (Request d)
    show ?thesis
    proof (cases "1 \<le> sint (safety_buffer d)")
      case False
      from pathTidyWrite_invalid [OF this, of b] inv Pair Request show ?thesis
        by auto
    next
      case True
      show ?thesis
      proof (cases "running = []")
        case True
        with inv Pair have "tidyCASGuard b = 0" by (simp add: guardInv_def)
        from pathTidyWrite_idle [OF this \<open>1 \<le> sint (safety_buffer d)\<close>] True Pair Request
        show ?thesis by (auto simp: guardInv_def)
      next
        case False
        with inv Pair have "tidyCASGuard b \<noteq> 0" by (simp add: guardInv_def)
        from pathTidyWrite_busy [OF this \<open>1 \<le> sint (safety_buffer d)\<close>] inv Pair Request
        show ?thesis by simp
      qed
    qed
  next
    case (Step i)
    show ?thesis
    proof (cases "i < length running")
      case False
      with inv Pair Step show ?thesis by simp
    next
      case True
      with inv Pair obtain g where g: "running = [g]" "i = 0" and guard: "tidyCASGuard b = 1"
        by (cases running) (auto simp: guardInv_def)
      obtain b1 next_g where st: "goroutine_step env g b = (b1, next_g)"
        by (cases "goroutine_step env g b") auto
      show ?thesis
      proof (cases next_g)
        case None
        with st goroutine_step_exit [of env g b b1] Pair Step g show ?thesis
          by (simp add: guardInv_def)
      next
        case (Some g1)
        with st goroutine_step_guard [of env g b b1 g1] Pair Step g guard show ?thesis
          by (simp add: guardInv_def)
      qed
    qed
  qed
qed

lemma guardInv_steps: "guardInv s \<Longrightarrow> guardInv (foldl (sys_step env) s evs)"
  by (induction evs arbitrary: s) (auto simp: guardInv_step)

lemma requests_while_busy:
  assumes "tidyCASGuard b \<noteq> 0"
  shows "foldl (sys_step env) (b, running) (map Request ds) = (b, running)"
proof (induction ds)
  case Nil
  show ?case by simp
next
  case (Cons d ds)
  have "sys_step env (b, running) (Request d) = (b, running)"
  proof (cases "1 \<le> sint (safety_buffer d)")
    case True
    from pathTidyWrite_busy [OF assms this] show ?thesis by simp
  next
    case False
    from pathTidyWrite_invalid [OF this, of b] show ?thesis by auto
  qed
  with Cons show ?case by simp
qed

lemma requests_while_idle:
  assumes "tidyCASGuard b = 0" and "\<exists>d \<in> set ds. 1 \<le> sint (safety_buffer d)"
  shows "length (snd (foldl (sys_step env) (b, []) (map Request ds))) = 1"
  using assms(2)
proof (induction ds)
  case Nil
  then show ?case by simp
next
  case (Cons d ds)
  show ?case
  proof (cases "1 \<le> sint (safety_buffer d)")
    case True
    from pathTidyWrite_idle [OF assms(1) this]
    obtain r config where "pathTidyWrite d b = (r, Some config, b\<lparr>tidyCASGuard := 1\<rparr>)"
      by blast
    then have "sys_step env (b, []) (Request d) = (b\<lparr>tidyCASGuard := 1\<rparr>, [Spawned config])"
      by simp
    then show ?thesis
      by (simp add: requests_while_busy)
  next
    case False
    from pathTidyWrite_invalid [OF this, of b]
    have "sys_step env (b, []) (Request d) = (b, [])" by auto
    with Cons False show ?thesis by simp
  qed
qed

text \<open>
  C2. In every state the interleaved system reaches from an idle guard (start requests
  and steps of the goroutines in any order): at most one run is started and not ended;
  while one is, a start request with a valid safety buffer gets the warning "Tidy
  operation already in progress." with no error, changes nothing and starts no run,
  however many such requests arrive; from an idle state, any batch of start requests
  with at least one valid request starts exactly one run; the last step of a run is the
  store of 0 into the guard, and every run of the goroutine to its end leaves the guard
  at 0, whatever \<open>doTidy\<close> returned.
\<close>

theorem single_flight:
  assumes "tidyCASGuard b0 = 0"
      and "foldl (sys_step env) (b0, []) evs = (b, running)"
  shows "length running \<le> 1
       \<and> (running \<noteq> [] \<longrightarrow>
            (\<forall>d. 1 \<le> sint (safety_buffer d) \<longrightarrow>
               pathTidyWrite d b =
                 ((Some (AddWarning ''Tidy operation already in progress.'' emptyResponse), None),
                  None, b))
            \<and> (\<forall>ds. foldl (sys_step env) (b, running) (map Request ds) = (b, running)))
       \<and> (running = [] \<longrightarrow>
            (\<forall>ds. (\<exists>d \<in> set ds. 1 \<le> sint (safety_buffer d)) \<longrightarrow>
               length (snd (foldl (sys_step env) (b, running) (map Request ds))) = 1))
       \<and> (running = [Exiting] \<longrightarrow>
            sys_step env (b, running) (Step 0) = (b\<lparr>tidyCASGuard := 0\<rparr>, []))
       \<and> (\<forall>config b1. tidyCASGuard (tidyGoroutine env config b1) = 0)"
proof -
  have "guardInv (b0, [])" using assms(1) by (simp add: guardInv_def)
  from guardInv_steps [OF this, of env evs] assms(2)
  have inv: "guardInv (b, running)" by simp
  then have len: "length running \<le> 1"
      and g: "tidyCASGuard b = (if running = [] then 0 else 1)"
    by (simp_all add: guardInv_def)
  have busy: "running \<noteq> [] \<Longrightarrow> tidyCASGuard b \<noteq> 0"
    using g by simp
  have idle: "running = [] \<Longrightarrow> tidyCASGuard b = 0"
    using g by simp
  show ?thesis
    using len busy idle
    by (auto simp: pathTidyWrite_busy requests_while_busy requests_while_idle tidyGoroutine_guard)
qed

theorem single_flight_witness:
  "tidyCASGuard demoBackend = 0
   \<and> foldl (sys_step demoEnv) (demoBackend, []) [Request demoRequest, Request demoRequest]
        = (demoBackend\<lparr>tidyCASGuard := 1\<rparr>, [Spawned demoConfig])
   \<and> length [Spawned demoConfig] \<le> 1
   \<and> pathTidyWrite demoRequest (demoBackend\<lparr>tidyCASGuard := 1\<rparr>)
        = ((Some (AddWarning ''Tidy operation already in progress.'' emptyResponse), None),
           None, demoBackend\<lparr>tidyCASGuard := 1\<rparr>)
   \<and> foldl (sys_step demoEnv) (demoBackend, []) [] = (demoBackend, [])
   \<and> length (snd (foldl (sys_step demoEnv) (demoBackend, [])
                (map Request [demoRequest, demoRequest\<lparr>tidy_cert_store := False\<rparr>, demoRequest]))) = 1
   \<and> tidyCASGuard (tidyGoroutine demoEnv demoConfig (demoBackend\<lparr>tidyCASGuard := 1\<rparr>)) = 0"
proof -
  have g: "tidyCASGuard demoBackend = 0"
    by (simp add: demoBackend_def)
  have v: "1 \<le> sint (safety_buffer demoRequest)"
      "1 \<le> sint (safety_buffer (demoRequest\<lparr>tidy_cert_store := False\<rparr>))"
    by (simp_all add: demoRequest_def)
  have r: "foldl (sys_step demoEnv) (demoBackend, []) [Request demoRequest, Request demoRequest]
        = (demoBackend\<lparr>tidyCASGuard := 1\<rparr>, [Spawned demoConfig])"
    using g v
    by (simp add: pathTidyWrite_def CompareAndSwapUint32_def Let_def demoRequest_def demoConfig_def
          Second_def)
  have i: "foldl (sys_step demoEnv) (demoBackend, []) [] = (demoBackend, [])"
    by simp
  have e: "\<exists>d \<in> set [demoRequest, demoRequest\<lparr>tidy_cert_store := False\<rparr>, demoRequest].
             1 \<le> sint (safety_buffer d)"
    using v by simp
  from single_flight [OF g r] single_flight [OF g i] g r i v e
  show ?thesis
    by (simp del: foldl.simps foldl_Cons foldl_Nil list.map)
qed

section \<open>The status tracker over a run\<close>

lemma successively_chain:
  "successively P (xs @ [hd (ys @ [z])]) \<Longrightarrow> successively P (ys @ [z])
     \<Longrightarrow> successively P (xs @ ys @ [z])"
  by (cases ys) (auto simp: successively_append_iff)

lemma hd_chain: "hd (xs @ [hd (ys @ [z])]) = hd (xs @ ys @ [z])"
  by (cases xs) auto

lemma advances_refl: "advances 0 0 0 b b"
  by (simp add: advances_def)

lemma advances_same:
  "tidyStatus b' = tidyStatus b \<Longrightarrow> statusLog b' = statusLog b
     \<Longrightarrow> listing (storage b') = listing (storage b) \<Longrightarrow> advances 0 0 0 b b'"
  by (simp add: advances_def)

lemma advances_trans:
  assumes "advances a1 a2 a3 b b1" and "advances c1 c2 c3 b1 b2"
  shows "advances (a1 + c1) (a2 + c2) (a3 + c3) b b2"
proof -
  from assms(1) obtain n1 where n1: "statusLog b1 = n1 @ statusLog b"
      "tidyStatus b1 = hd (n1 @ [tidyStatus b])" "\<forall>st \<in> set n1. state st = tidyStatusStarted"
      "successively (\<lambda>y x. countersLe x y) (n1 @ [tidyStatus b])"
      "unat (certStoreDeletedCount (tidyStatus b1)) \<le> unat (certStoreDeletedCount (tidyStatus b)) + a1"
      "unat (revokedCertDeletedCount (tidyStatus b1)) \<le> unat (revokedCertDeletedCount (tidyStatus b)) + a2"
      "unat (missingIssuerCertCount (tidyStatus b1)) \<le> unat (missingIssuerCertCount (tidyStatus b)) + a3"
      "listing (storage b1) = listing (storage b)"
    unfolding advances_def by blast
  from assms(2) obtain n2 where n2: "statusLog b2 = n2 @ statusLog b1"
      "tidyStatus b2 = hd (n2 @ [tidyStatus b1])" "\<forall>st \<in> set n2. state st = tidyStatusStarted"
      "successively (\<lambda>y x. countersLe x y) (n2 @ [tidyStatus b1])"
      "unat (certStoreDeletedCount (tidyStatus b2)) \<le> unat (certStoreDeletedCount (tidyStatus b1)) + c1"
      "unat (revokedCertDeletedCount (tidyStatus b2)) \<le> unat (revokedCertDeletedCount (tidyStatus b1)) + c2"
      "unat (missingIssuerCertCount (tidyStatus b2)) \<le> unat (missingIssuerCertCount (tidyStatus b1)) + c3"
      "listing (storage b2) = listing (storage b1)"
    unfolding advances_def by blast
  have "statusLog b2 = (n2 @ n1) @ statusLog b"
    using n1(1) n2(1) by simp
  moreover have "tidyStatus b2 = hd ((n2 @ n1) @ [tidyStatus b])"
    using n1(2) n2(2) by (simp add: hd_chain)
  moreover have "\<forall>st \<in> set (n2 @ n1). state st = tidyStatusStarted"
    using n1(3) n2(3) by auto
  moreover have "successively (\<lambda>y x. countersLe x y) ((n2 @ n1) @ [tidyStatus b])"
    using successively_chain [of _ n2 n1 "tidyStatus b"] n1(2,4) n2(4) by simp
  ultimately show ?thesis
    unfolding advances_def
    using n1(5-8) n2(5-8)
    by (intro exI [of _ "n2 @ n1"]) (simp del: append_assoc)
qed

lemma advances_mono:
  "advances a1 a2 a3 b b' \<Longrightarrow> a1 \<le> c1 \<Longrightarrow> a2 \<le> c2 \<Longrightarrow> a3 \<le> c3 \<Longrightarrow> advances c1 c2 c3 b b'"
  unfolding advances_def by (elim exE conjE, rule_tac x = new in exI) simp

lemma advances_state:
  "advances a1 a2 a3 b b' \<Longrightarrow> state (tidyStatus b) = tidyStatusStarted
     \<Longrightarrow> state (tidyStatus b') = tidyStatusStarted"
  unfolding advances_def
  by (elim exE conjE, case_tac new) auto

lemma advances_message:
  "state (tidyStatus b) = tidyStatusStarted \<Longrightarrow> advances 0 0 0 b (tidyStatusMessage m b)"
  unfolding advances_def status_defs
  by (rule exI [of _ "[(tidyStatus b)\<lparr>message := m\<rparr>]"]) (simp add: countersLe_def)

lemma word_inc:
  assumes "unat (c :: 64 word) + 1 < 2 ^ 64"
  shows "c \<le> c + 1" and "unat (c + 1) = unat c + 1"
proof -
  have "unat c + unat (1 :: 64 word) < 2 ^ LENGTH(64)"
    using assms by simp
  then have "unat (c + 1) = unat c + unat (1 :: 64 word)"
    by (simp only: unat_add_lem)
  then show "unat (c + 1) = unat c + 1" by simp
  then show "c \<le> c + 1" by (simp add: word_le_nat_alt)
qed

lemma advances_incCert:
  assumes "state (tidyStatus b) = tidyStatusStarted"
      and "unat (certStoreDeletedCount (tidyStatus b)) + 1 < 2 ^ 64"
  shows "advances 1 0 0 b (tidyStatusIncCertStoreCount b)"
  unfolding advances_def status_defs
  using assms word_inc [OF assms(2)]
  by (intro exI [of _ "[(tidyStatus b)\<lparr>certStoreDeletedCount := certStoreDeletedCount (tidyStatus b) + 1\<rparr>]"])
     (simp add: countersLe_def)

lemma advances_incRevoked:
  assumes "state (tidyStatus b) = tidyStatusStarted"
      and "unat (revokedCertDeletedCount (tidyStatus b)) + 1 < 2 ^ 64"
  shows "advances 0 1 0 b (tidyStatusIncRevokedCertCount b)"
  unfolding advances_def status_defs
  using assms word_inc [OF assms(2)]
  by (intro exI [of _ "[(tidyStatus b)\<lparr>revokedCertDeletedCount := revokedCertDeletedCount (tidyStatus b) + 1\<rparr>]"])
     (simp add: countersLe_def)

lemma advances_incMissing:
  assumes "state (tidyStatus b) = tidyStatusStarted"
      and "unat (missingIssuerCertCount (tidyStatus b)) + 1 < 2 ^ 64"
  shows "advances 0 0 1 b (tidyStatusIncMissingIssuerCertCount b)"
  unfolding advances_def status_defs
  using assms word_inc [OF assms(2)]
  by (intro exI [of _ "[(tidyStatus b)\<lparr>missingIssuerCertCount := missingIssuerCertCount (tidyStatus b) + 1\<rparr>]"])
     (simp add: countersLe_def)

lemma advances_from:
  "advances a1 a2 a3 b1 b' \<Longrightarrow> tidyStatus b1 = tidyStatus b \<Longrightarrow> statusLog b1 = statusLog b
     \<Longrightarrow> listing (storage b1) = listing (storage b) \<Longrightarrow> advances a1 a2 a3 b b'"
  by (simp add: advances_def)

lemma storage_Delete_same:
  "storage_Delete k b = (r, b1) \<Longrightarrow>
     tidyStatus b1 = tidyStatus b \<and> statusLog b1 = statusLog b
     \<and> listing (storage b1) = listing (storage b)"
  by (auto simp: storage_Delete_def split: option.splits)

lemma storage_Put_same:
  "storage_Put k v b = (r, b1) \<Longrightarrow>
     tidyStatus b1 = tidyStatus b \<and> statusLog b1 = statusLog b
     \<and> listing (storage b1) = listing (storage b)"
  by (auto simp: storage_Put_def split: option.splits)

lemma timeNow_same:
  "timeNow b = (t, b1) \<Longrightarrow>
     tidyStatus b1 = tidyStatus b \<and> statusLog b1 = statusLog b
     \<and> listing (storage b1) = listing (storage b)"
  by (auto simp: timeNow_def)

lemma tidyStatusMessage_same:
  "certStoreDeletedCount (tidyStatus (tidyStatusMessage m b)) = certStoreDeletedCount (tidyStatus b)"
  "revokedCertDeletedCount (tidyStatus (tidyStatusMessage m b)) = revokedCertDeletedCount (tidyStatus b)"
  "missingIssuerCertCount (tidyStatus (tidyStatusMessage m b)) = missingIssuerCertCount (tidyStatus b)"
  "state (tidyStatus (tidyStatusMessage m b)) = state (tidyStatus b)"
  "storage (tidyStatusMessage m b) = storage b"
  by (simp_all add: status_defs)

text \<open>Deleting an entry and counting it, in the certificate store.\<close>

lemma delete_count_cert:
  assumes "state (tidyStatus b) = tidyStatusStarted"
      and "unat (certStoreDeletedCount (tidyStatus b)) + 1 < 2 ^ 64"
      and "storage_Delete k b = (r, b1)"
  shows "advances 1 0 0 b b1" and "advances 1 0 0 b (tidyStatusIncCertStoreCount b1)"
proof -
  from storage_Delete_same [OF assms(3)]
  have same: "tidyStatus b1 = tidyStatus b" "statusLog b1 = statusLog b"
      "listing (storage b1) = listing (storage b)"
    by simp_all
  then have "advances 0 0 0 b b1" by (simp add: advances_same)
  then show "advances 1 0 0 b b1" by (rule advances_mono) simp_all
  have "advances 1 0 0 b1 (tidyStatusIncCertStoreCount b1)"
    using assms(1,2) same(1) by (intro advances_incCert) simp_all
  then show "advances 1 0 0 b (tidyStatusIncCertStoreCount b1)"
    using same by (rule advances_from)
qed

lemma tidyCertEntry_advances:
  assumes st: "state (tidyStatus b) = tidyStatusStarted"
      and bd: "unat (certStoreDeletedCount (tidyStatus b)) + 1 < 2 ^ 64"
      and run: "tidyCertEntry env config n i serial b = (r, b')"
  shows "advances 1 0 0 b b'"
proof -
  let ?b = "tidyStatusMessage
      (''Tidying certificate store: checking entry '' @ itoa i @ '' of '' @ itoa n) b"
  have msg: "advances 0 0 0 b ?b" using st by (rule advances_message)
  have st': "state (tidyStatus ?b) = tidyStatusStarted"
      and bd': "unat (certStoreDeletedCount (tidyStatus ?b)) + 1 < 2 ^ 64"
    using st bd by (simp_all add: tidyStatusMessage_same)
  have step: "advances 1 0 0 ?b b'"
  proof (cases "storage_Get (''certs/'' @ serial) ?b")
    case (Inl e)
    with run have "b' = ?b" by (simp add: tidyCertEntry_def Let_def)
    then show ?thesis using advances_refl advances_mono by fastforce
  next
    case (Inr entry)
    obtain rd bd1 where d: "storage_Delete (''certs/'' @ serial) ?b = (rd, bd1)"
      by (cases "storage_Delete (''certs/'' @ serial) ?b") auto
    note dc = delete_count_cert [OF st' bd' d]
    show ?thesis
    proof (cases "entry = None \<or> entry = Some []")
      case True
      with run Inr d have "b' = bd1 \<or> b' = tidyStatusIncCertStoreCount bd1"
        by (auto simp: tidyCertEntry_def Let_def split: option.splits)
      with dc show ?thesis by auto
    next
      case False
      then obtain v where v: "entry = Some v" "v \<noteq> []" by auto
      show ?thesis
      proof (cases "ParseCertificate env v")
        case (Inl e)
        with run Inr v have "b' = ?b" by (simp add: tidyCertEntry_def Let_def)
        then show ?thesis using advances_refl advances_mono by fastforce
      next
        case cert: (Inr cert)
        obtain now b1 where t: "timeNow ?b = (now, b1)"
          by (cases "timeNow ?b") auto
        note same = timeNow_same [OF t]
        obtain r2 b2 where d2: "storage_Delete (''certs/'' @ serial) b1 = (r2, b2)"
          by (cases "storage_Delete (''certs/'' @ serial) b1") auto
        have dc2: "advances 1 0 0 b1 b2" "advances 1 0 0 b1 (tidyStatusIncCertStoreCount b2)"
          using delete_count_cert [OF _ _ d2] st' bd' same by simp_all
        from run Inr v cert t d2
        have "b' = b1 \<or> b' = b2 \<or> b' = tidyStatusIncCertStoreCount b2"
          by (auto simp: tidyCertEntry_def Let_def split: option.splits if_splits)
        moreover have "advances 1 0 0 ?b b1"
          using same advances_same [of b1 ?b] advances_mono by fastforce
        moreover have "advances 1 0 0 ?b b2" "advances 1 0 0 ?b (tidyStatusIncCertStoreCount b2)"
          using dc2 same by (auto intro: advances_from)
        ultimately show ?thesis by auto
      qed
    qed
  qed
  from advances_trans [OF msg step] show ?thesis by simp
qed

lemma tidyCertLoop_advances:
  assumes "state (tidyStatus b) = tidyStatusStarted"
      and "unat (certStoreDeletedCount (tidyStatus b)) + length serials < 2 ^ 64"
      and "tidyCertLoop env config n i serials b = (r, b')"
  shows "advances (length serials) 0 0 b b'"
  using assms
proof (induction serials arbitrary: i b)
  case Nil
  then show ?case by (simp add: advances_refl)
next
  case (Cons serial serials)
  obtain e b1 where st: "tidyCertEntry env config n i serial b = (e, b1)"
    by (cases "tidyCertEntry env config n i serial b") auto
  have a1: "advances 1 0 0 b b1"
    using tidyCertEntry_advances [OF Cons.prems(1) _ st] Cons.prems(2) by simp
  then have s1: "state (tidyStatus b1) = tidyStatusStarted"
    using Cons.prems(1) by (rule advances_state)
  from a1 have c1: "unat (certStoreDeletedCount (tidyStatus b1))
      \<le> unat (certStoreDeletedCount (tidyStatus b)) + 1"
    by (auto simp: advances_def)
  show ?case
  proof (cases e)
    case (Some x)
    with st Cons.prems(3) have "b' = b1" by simp
    with a1 show ?thesis by (auto intro: advances_mono)
  next
    case None
    with st Cons.prems(3) have rest: "tidyCertLoop env config n (Suc i) serials b1 = (r, b')"
      by simp
    have "advances (length serials) 0 0 b1 b'"
      using Cons.IH [OF s1 _ rest] c1 Cons.prems(2) by simp
    from advances_trans [OF a1 this] show ?thesis by simp
  qed
qed

lemma delete_count_revoked:
  assumes "state (tidyStatus b) = tidyStatusStarted"
      and "unat (revokedCertDeletedCount (tidyStatus b)) + 1 < 2 ^ 64"
      and "storage_Delete k b = (r, b1)"
  shows "advances 0 1 0 b b1" and "advances 0 1 0 b (tidyStatusIncRevokedCertCount b1)"
proof -
  from storage_Delete_same [OF assms(3)]
  have same: "tidyStatus b1 = tidyStatus b" "statusLog b1 = statusLog b"
      "listing (storage b1) = listing (storage b)"
    by simp_all
  then have "advances 0 0 0 b b1" by (simp add: advances_same)
  then show "advances 0 1 0 b b1" by (rule advances_mono) simp_all
  have "advances 0 1 0 b1 (tidyStatusIncRevokedCertCount b1)"
    using assms(1,2) same(1) by (intro advances_incRevoked) simp_all
  then show "advances 0 1 0 b (tidyStatusIncRevokedCertCount b1)"
    using same by (rule advances_from)
qed

lemma repairIssuer_advances:
  assumes "state (tidyStatus b) = tidyStatusStarted"
      and "unat (missingIssuerCertCount (tidyStatus b)) + 1 < 2 ^ 64"
      and "repairIssuer env config m cert l b = (sc, l1, b1)"
  shows "advances 0 0 1 b b1"
proof -
  from assms(3) have "b1 = b \<or> b1 = tidyStatusIncMissingIssuerCertCount b"
    by (auto simp: repairIssuer_def Let_def split: if_splits prod.splits bool.splits)
  moreover have "advances 0 0 1 b b"
    using advances_refl by (rule advances_mono) simp_all
  moreover have "advances 0 0 1 b (tidyStatusIncMissingIssuerCertCount b)"
    using assms(1,2) by (rule advances_incMissing)
  ultimately show ?thesis by auto
qed

lemma removeExpired_advances:
  assumes st: "state (tidyStatus b) = tidyStatusStarted"
      and bd: "unat (revokedCertDeletedCount (tidyStatus b)) + 1 < 2 ^ 64"
      and run: "removeExpired config serial cert sc l b = (r, sc2, l2, b2)"
  shows "advances 0 1 0 b b2"
proof -
  obtain now b1 where t: "timeNow b = (now, b1)"
    by (cases "timeNow b") auto
  note same = timeNow_same [OF t]
  obtain r1 d1 where d1: "storage_Delete (''revoked/'' @ serial) b1 = (r1, d1)"
    by (cases "storage_Delete (''revoked/'' @ serial) b1") auto
  note same1 = storage_Delete_same [OF d1]
  obtain r2 d2 where d2: "storage_Delete (''certs/'' @ serial) d1 = (r2, d2)"
    by (cases "storage_Delete (''certs/'' @ serial) d1") auto
  have dc: "advances 0 1 0 d1 d2" "advances 0 1 0 d1 (tidyStatusIncRevokedCertCount d2)"
    using delete_count_revoked [OF _ _ d2] st bd same same1 by simp_all
  have to_d1: "tidyStatus d1 = tidyStatus b" "statusLog d1 = statusLog b"
      "listing (storage d1) = listing (storage b)"
    using same same1 by simp_all
  from run t d1 d2
  have "b2 = b \<or> b2 = b1 \<or> b2 = d1 \<or> b2 = d2 \<or> b2 = tidyStatusIncRevokedCertCount d2"
    by (auto simp: removeExpired_def split: if_splits option.splits)
  moreover have "advances 0 1 0 b b"
    using advances_refl by (rule advances_mono) simp_all
  moreover have "advances 0 1 0 b b1"
    using advances_same [of b1 b] same by (auto intro: advances_mono)
  moreover have "advances 0 1 0 b d1"
    using advances_same [of d1 b] to_d1 by (auto intro: advances_mono)
  moreover have "advances 0 1 0 b d2" "advances 0 1 0 b (tidyStatusIncRevokedCertCount d2)"
    using dc to_d1 by (auto intro: advances_from)
  ultimately show ?thesis by auto
qed

lemma writeBack_advances:
  assumes "writeBack env serial sc l b = (r, b3)"
  shows "advances 0 0 0 b b3"
proof (cases "sc \<and> (\<exists>v. StorageEntryJSON env (''revoked/'' @ serial) (revInfo l) = Inr v)")
  case True
  then obtain v where v: "StorageEntryJSON env (''revoked/'' @ serial) (revInfo l) = Inr v" and sc: sc
    by auto
  obtain rp bp where p: "storage_Put (''revoked/'' @ serial) v b = (rp, bp)"
    by (cases "storage_Put (''revoked/'' @ serial) v b") auto
  with assms v sc have "b3 = bp"
    by (auto simp: writeBack_def split: option.splits)
  with storage_Put_same [OF p] show ?thesis
    by (simp add: advances_same)
next
  case False
  with assms have "b3 = b"
    by (auto simp: writeBack_def split: sum.splits if_splits)
  then show ?thesis by (simp add: advances_refl)
qed

lemma tidyRevokedEntry_advances:
  assumes st: "state (tidyStatus b) = tidyStatusStarted"
      and br: "unat (revokedCertDeletedCount (tidyStatus b)) + 1 < 2 ^ 64"
      and bm: "unat (missingIssuerCertCount (tidyStatus b)) + 1 < 2 ^ 64"
      and run: "tidyRevokedEntry env config m n i serial l b = (r, l', b')"
  shows "advances 0 1 1 b b'"
proof -
  let ?b = "tidyStatusMessage
      (''Tidying revoked certificates: checking certificate '' @ itoa i @ '' of '' @ itoa n) b"
  have msg: "advances 0 0 0 b ?b" using st by (rule advances_message)
  have st': "state (tidyStatus ?b) = tidyStatusStarted"
      and br': "unat (revokedCertDeletedCount (tidyStatus ?b)) + 1 < 2 ^ 64"
      and bm': "unat (missingIssuerCertCount (tidyStatus ?b)) + 1 < 2 ^ 64"
    using st br bm by (simp_all add: tidyStatusMessage_same)
  have keep: "advances 0 1 1 ?b ?b"
    using advances_refl by (rule advances_mono) simp_all
  have step: "advances 0 1 1 ?b b'"
  proof (cases "storage_Get (''revoked/'' @ serial) ?b")
    case (Inl e)
    with run have "b' = ?b" by (simp add: tidyRevokedEntry_def Let_def)
    with keep show ?thesis by simp
  next
    case (Inr entry)
    obtain rd bd1 where d: "storage_Delete (''revoked/'' @ serial) ?b = (rd, bd1)"
      by (cases "storage_Delete (''revoked/'' @ serial) ?b") auto
    note dc = delete_count_revoked [OF st' br' d]
    show ?thesis
    proof (cases "entry = None \<or> entry = Some []")
      case True
      with run Inr d have "b' = bd1 \<or> b' = tidyStatusIncRevokedCertCount bd1"
        by (auto simp: tidyRevokedEntry_def Let_def split: option.splits)
      with dc show ?thesis by (auto intro: advances_mono)
    next
      case False
      then obtain v where v: "entry = Some v" "v \<noteq> []" by auto
      show ?thesis
      proof (cases "DecodeJSON env v (revInfo l)")
        case (Inl e)
        with run Inr v have "b' = ?b" by (simp add: tidyRevokedEntry_def Let_def)
        with keep show ?thesis by simp
      next
        case ri: (Inr ri)
        show ?thesis
        proof (cases "ParseCertificate env (CertificateBytes ri)")
          case (Inl e)
          with run Inr v ri have "b' = ?b" by (simp add: tidyRevokedEntry_def Let_def)
          with keep show ?thesis by simp
        next
          case cert: (Inr cert)
          obtain sc l1 b1 where rep:
            "repairIssuer env config m cert (l\<lparr>revInfo := ri\<rparr>) ?b = (sc, l1, b1)"
            by (cases "repairIssuer env config m cert (l\<lparr>revInfo := ri\<rparr>) ?b") auto
          obtain e2 sc2 l2 b2 where rem:
            "removeExpired config serial cert sc l1 b1 = (e2, sc2, l2, b2)"
            by (cases "removeExpired config serial cert sc l1 b1") auto
          obtain e3 b3 where wb: "writeBack env serial sc2 l2 b2 = (e3, b3)"
            by (cases "writeBack env serial sc2 l2 b2") auto
          from run Inr v ri cert rep rem wb
          have res: "b' = b2 \<or> b' = b3"
            by (auto simp: tidyRevokedEntry_def Let_def split: option.splits)
          have a1: "advances 0 0 1 ?b b1"
            using repairIssuer_advances [OF st' bm' rep] .
          then have st1: "state (tidyStatus b1) = tidyStatusStarted"
            using st' by (rule advances_state)
          from a1 have "unat (revokedCertDeletedCount (tidyStatus b1))
              \<le> unat (revokedCertDeletedCount (tidyStatus ?b)) + 0"
            unfolding advances_def by blast
          with br' have br1: "unat (revokedCertDeletedCount (tidyStatus b1)) + 1 < 2 ^ 64"
            by simp
          have a2: "advances 0 1 0 b1 b2"
            using removeExpired_advances [OF st1 br1 rem] .
          have a3: "advances 0 0 0 b2 b3"
            using writeBack_advances [OF wb] .
          from advances_trans [OF a1 a2] have a12: "advances 0 1 1 ?b b2" by simp
          from advances_trans [OF a12 a3] have "advances 0 1 1 ?b b3" by simp
          with a12 res show ?thesis by auto
        qed
      qed
    qed
  qed
  from advances_trans [OF msg step] show ?thesis by simp
qed

lemma tidyRevokedLoop_advances:
  assumes "state (tidyStatus b) = tidyStatusStarted"
      and "unat (revokedCertDeletedCount (tidyStatus b)) + length serials < 2 ^ 64"
      and "unat (missingIssuerCertCount (tidyStatus b)) + length serials < 2 ^ 64"
      and "tidyRevokedLoop env config m n i serials l b = (r, l', b')"
  shows "advances 0 (length serials) (length serials) b b'"
  using assms
proof (induction serials arbitrary: i l b)
  case Nil
  then show ?case by (simp add: advances_refl)
next
  case (Cons serial serials)
  obtain e l1 b1 where st: "tidyRevokedEntry env config m n i serial l b = (e, l1, b1)"
    by (cases "tidyRevokedEntry env config m n i serial l b") auto
  have a1: "advances 0 1 1 b b1"
    using tidyRevokedEntry_advances [OF Cons.prems(1) _ _ st] Cons.prems(2,3) by simp
  then have s1: "state (tidyStatus b1) = tidyStatusStarted"
    using Cons.prems(1) by (rule advances_state)
  from a1 have c1: "unat (revokedCertDeletedCount (tidyStatus b1))
        \<le> unat (revokedCertDeletedCount (tidyStatus b)) + 1"
      "unat (missingIssuerCertCount (tidyStatus b1))
        \<le> unat (missingIssuerCertCount (tidyStatus b)) + 1"
    by (auto simp: advances_def)
  show ?case
  proof (cases e)
    case (Some x)
    with st Cons.prems(4) have "b' = b1" by simp
    with a1 show ?thesis by (auto intro: advances_mono)
  next
    case None
    with st Cons.prems(4)
    have rest: "tidyRevokedLoop env config m n (Suc i) serials l1 b1 = (r, l', b')"
      by simp
    have "advances 0 (length serials) (length serials) b1 b'"
      using Cons.IH [OF s1 _ _ rest] c1 Cons.prems(2,3) by simp
    from advances_trans [OF a1 this] show ?thesis by simp
  qed
qed

lemma advances_weaken0:
  assumes "advances 0 0 0 b b'"
  shows "advances a1 a2 a3 b b'"
  using assms by (rule advances_mono) simp_all

lemma doTidyCertStore_advances:
  assumes "state (tidyStatus b) = tidyStatusStarted"
      and "unat (certStoreDeletedCount (tidyStatus b)) + length (listing (storage b) ''certs/'') < 2 ^ 64"
      and "doTidyCertStore env config b = (r, b')"
  shows "advances (length (listing (storage b) ''certs/'')) 0 0 b b'"
proof (cases "storage_List ''certs/'' b")
  case (Inl e)
  with assms(3) have "b' = b" by (simp add: doTidyCertStore_def)
  then show ?thesis using advances_refl by (simp add: advances_weaken0)
next
  case (Inr serials)
  then have s: "serials = listing (storage b) ''certs/''"
    by (simp add: storage_List_def split: option.splits)
  from assms(3) Inr have "tidyCertLoop env config (length serials) 0 serials b = (r, b')"
    by (simp add: doTidyCertStore_def)
  from tidyCertLoop_advances [OF assms(1) _ this] assms(2) s show ?thesis by simp
qed

lemma rebuildAfterScan_advances:
  "rebuildAfterScan l b = (r, b') \<Longrightarrow> advances 0 0 0 b b'"
  by (rule advances_same)
     (auto simp: rebuildAfterScan_def crlBuilder_rebuild_def split: if_splits sum.splits option.splits)

lemma doTidyRevocationStore_advances:
  assumes "state (tidyStatus b) = tidyStatusStarted"
      and "unat (revokedCertDeletedCount (tidyStatus b)) + length (listing (storage b) ''revoked/'') < 2 ^ 64"
      and "unat (missingIssuerCertCount (tidyStatus b)) + length (listing (storage b) ''revoked/'') < 2 ^ 64"
      and "doTidyRevocationStore env config b = (r, b')"
  shows "advances 0 (length (listing (storage b) ''revoked/'')) (length (listing (storage b) ''revoked/'')) b b'"
proof (cases "issuerMap b")
  case (Inl e)
  with assms(4) have "b' = b" by (simp add: doTidyRevocationStore_def)
  then show ?thesis using advances_refl by (simp add: advances_weaken0)
next
  case m: (Inr m)
  show ?thesis
  proof (cases "storage_List ''revoked/'' b")
    case (Inl e)
    with assms(4) m have "b' = b" by (simp add: doTidyRevocationStore_def)
    then show ?thesis using advances_refl by (simp add: advances_weaken0)
  next
    case (Inr serials)
    then have s: "serials = listing (storage b) ''revoked/''"
      by (simp add: storage_List_def split: option.splits)
    let ?l0 = "\<lparr>rebuildCRL = False, fixedIssuers = 0,
         revInfo = \<lparr>CertificateBytes = [], RevocationTime = 0, CertificateIssuer = []\<rparr>\<rparr>"
    obtain e l1 b1 where loop:
      "tidyRevokedLoop env config m (length serials) 0 serials ?l0 b = (e, l1, b1)"
      by (cases "tidyRevokedLoop env config m (length serials) 0 serials ?l0 b") auto
    have a1: "advances 0 (length serials) (length serials) b b1"
      using tidyRevokedLoop_advances [OF assms(1) _ _ loop] assms(2,3) s by simp
    show ?thesis
    proof (cases e)
      case (Some x)
      with assms(4) m Inr loop have "b' = b1" by (simp add: doTidyRevocationStore_def)
      with a1 s show ?thesis by simp
    next
      case None
      with assms(4) m Inr loop have "rebuildAfterScan l1 b1 = (r, b')"
        by (simp add: doTidyRevocationStore_def)
      from advances_trans [OF a1 rebuildAfterScan_advances [OF this]] s show ?thesis by simp
    qed
  qed
qed

lemma doTidy_advances:
  assumes st: "state (tidyStatus b) = tidyStatusStarted"
      and bc: "unat (certStoreDeletedCount (tidyStatus b)) + length (listing (storage b) ''certs/'') < 2 ^ 64"
      and br: "unat (revokedCertDeletedCount (tidyStatus b)) + length (listing (storage b) ''revoked/'') < 2 ^ 64"
      and bm: "unat (missingIssuerCertCount (tidyStatus b)) + length (listing (storage b) ''revoked/'') < 2 ^ 64"
      and run: "doTidy env config b = (r, b')"
  shows "advances (length (listing (storage b) ''certs/'')) (length (listing (storage b) ''revoked/''))
           (length (listing (storage b) ''revoked/'')) b b'"
proof -
  let ?nc = "length (listing (storage b) ''certs/'')"
  let ?nr = "length (listing (storage b) ''revoked/'')"
  let ?c = "if CertStore config then doTidyCertStore env config b else (None, b)"
  obtain e b1 where c: "?c = (e, b1)" by (cases ?c) auto
  have a1: "advances ?nc 0 0 b b1"
  proof (cases "CertStore config")
    case True
    with c doTidyCertStore_advances [OF st bc] show ?thesis by simp
  next
    case False
    with c advances_refl [of b] show ?thesis by (simp add: advances_weaken0)
  qed
  then have st1: "state (tidyStatus b1) = tidyStatusStarted"
    using st by (rule advances_state)
  from a1 have same: "unat (revokedCertDeletedCount (tidyStatus b1))
        \<le> unat (revokedCertDeletedCount (tidyStatus b)) + 0"
      "unat (missingIssuerCertCount (tidyStatus b1))
        \<le> unat (missingIssuerCertCount (tidyStatus b)) + 0"
      "listing (storage b1) = listing (storage b)"
    unfolding advances_def by blast+
  have weak: "advances ?nc ?nr ?nr b b1"
    using a1 by (rule advances_mono) simp_all
  show ?thesis
  proof (cases "e = None \<and> (RevokedCerts config \<or> IssuerAssocs config)")
    case False
    with run c have "b' = b1"
      by (auto simp: doTidy_def split: option.splits)
    with weak show ?thesis by simp
  next
    case True
    obtain e2 b2 where r2: "doTidyRevocationStore env config b1 = (e2, b2)"
      by (cases "doTidyRevocationStore env config b1") auto
    with run c True have "b' = b2"
      by (auto simp: doTidy_def split: option.splits)
    moreover have "advances 0 ?nr ?nr b1 b2"
      using doTidyRevocationStore_advances [OF st1 _ _ r2] same br bm by simp
    ultimately show ?thesis
      using advances_trans [OF a1, of 0 ?nr ?nr b2] by simp
  qed
qed

text \<open>Extending the log by one value.\<close>

lemma statusInv_push:
  assumes "statusInv b0 (b, gs)"
      and "statusLog b1 = st # statusLog b" and "tidyStatus b1 = st"
      and "validTransition (tidyStatus b) st"
      and "listing (storage b1) = listing (storage b)"
      and "stageOk gs1 st"
  shows "statusInv b0 (b1, gs1)"
proof -
  from assms(1) obtain new where new: "statusLog b = new @ statusLog b0"
      "tidyStatus b = hd (new @ [tidyStatus b0])"
      "successively (\<lambda>y x. validTransition x y) (new @ [tidyStatus b0])"
      "listing (storage b) = listing (storage b0)"
    by (auto simp: statusInv_def)
  have "successively (\<lambda>y x. validTransition x y) ((st # new) @ [tidyStatus b0])"
    using new(2,3) assms(4) by (simp add: successively_Cons)
  then show ?thesis
    unfolding statusInv_def
    using new(1,4) assms(2,3,5,6)
    by (intro exI [of _ "st # new"]) simp
qed

text \<open>Keeping the log.\<close>

lemma statusInv_keep:
  assumes "statusInv b0 (b, gs)"
      and "statusLog b1 = statusLog b" and "tidyStatus b1 = tidyStatus b"
      and "listing (storage b1) = listing (storage b)"
      and "stageOk gs1 (tidyStatus b)"
  shows "statusInv b0 (b1, gs1)"
  using assms unfolding statusInv_def by auto

text \<open>Extending the log by a part of a run.\<close>

lemma statusInv_advances:
  assumes "statusInv b0 (b, gs)" and "advances a1 a2 a3 b b1"
      and "state (tidyStatus b) = tidyStatusStarted"
      and "stageOk gs1 (tidyStatus b1)"
  shows "statusInv b0 (b1, gs1)"
proof -
  from assms(1) obtain new where new: "statusLog b = new @ statusLog b0"
      "tidyStatus b = hd (new @ [tidyStatus b0])"
      "successively (\<lambda>y x. validTransition x y) (new @ [tidyStatus b0])"
      "listing (storage b) = listing (storage b0)"
    by (auto simp: statusInv_def)
  from assms(2) obtain n1 where n1: "statusLog b1 = n1 @ statusLog b"
      "tidyStatus b1 = hd (n1 @ [tidyStatus b])" "\<forall>st \<in> set n1. state st = tidyStatusStarted"
      "successively (\<lambda>y x. countersLe x y) (n1 @ [tidyStatus b])"
      "listing (storage b1) = listing (storage b)"
    unfolding advances_def by blast
  have "successively (\<lambda>y x. validTransition x y) (n1 @ [tidyStatus b])"
    using n1(4)
  proof (rule successively_mono)
    fix x y
    assume "x \<in> set (n1 @ [tidyStatus b])" "y \<in> set (n1 @ [tidyStatus b])" "countersLe y x"
    with n1(3) assms(3) show "validTransition y x"
      by (auto simp: validTransition_def)
  qed
  with new(2,3) have "successively (\<lambda>y x. validTransition x y) ((n1 @ new) @ [tidyStatus b0])"
    using successively_chain [of _ n1 new "tidyStatus b0"] by simp
  moreover have "tidyStatus b1 = hd ((n1 @ new) @ [tidyStatus b0])"
    using n1(2) new(2) by (simp add: hd_chain)
  ultimately show ?thesis
    unfolding statusInv_def
    using new(1,4) n1(1,5) assms(4)
    by (intro exI [of _ "n1 @ new"]) (simp del: append_assoc)
qed

lemma pathTidyWrite_frame:
  assumes "pathTidyWrite d b = (r, sp, b1)"
  shows "tidyStatus b1 = tidyStatus b \<and> statusLog b1 = statusLog b \<and> storage b1 = storage b"
  using assms
  by (auto simp: pathTidyWrite_def CompareAndSwapUint32_def Let_def split: if_splits)

lemma pathTidyWrite_spawn:
  assumes "pathTidyWrite d b = (r, Some config, b1)"
  shows "tidyCASGuard b = 0"
  using assms
  by (auto simp: pathTidyWrite_def CompareAndSwapUint32_def Let_def split: if_splits)

lemma tidyStatusStart_log:
  "statusLog (tidyStatusStart config b) = tidyStatus (tidyStatusStart config b) # statusLog b"
  "state (tidyStatus (tidyStatusStart config b)) = tidyStatusStarted"
  "countersZero (tidyStatus (tidyStatusStart config b))"
  "storage (tidyStatusStart config b) = storage b"
  by (simp_all add: tidyStatusStart_def timeNow_def setStatus_def countersZero_def)

lemma tidyStatusStop_log:
  "statusLog (tidyStatusStop e b) = tidyStatus (tidyStatusStop e b) # statusLog b"
  "state (tidyStatus (tidyStatusStop e b)) = (if e = None then tidyStatusFinished else tidyStatusError)"
  "countersLe (tidyStatus b) (tidyStatus (tidyStatusStop e b))"
  "countersLe (tidyStatus (tidyStatusStop e b)) (tidyStatus b)"
  "storage (tidyStatusStop e b) = storage b"
  by (simp_all add: tidyStatusStop_def timeNow_def setStatus_def countersLe_def)

lemma statusInv_step:
  assumes inv: "statusInv b0 s" and g: "guardInv s"
      and nc: "length (listing (storage b0) ''certs/'') < 2 ^ 64"
      and nr: "length (listing (storage b0) ''revoked/'') < 2 ^ 64"
  shows "statusInv b0 (sys_step env s ev)"
proof (cases s)
  case (Pair b running)
  from inv Pair have ok: "stageOk running (tidyStatus b)"
      and ls: "listing (storage b) = listing (storage b0)"
    by (auto simp: statusInv_def)
  note inv' = inv [unfolded Pair]
  show ?thesis
  proof (cases ev)
    case (Request d)
    obtain r sp b1 where w: "pathTidyWrite d b = (r, sp, b1)"
      by (cases "pathTidyWrite d b") auto
    note fr = pathTidyWrite_frame [OF w]
    show ?thesis
    proof (cases sp)
      case None
      with w Pair Request have "sys_step env s ev = (b1, running)" by simp
      moreover have "statusInv b0 (b1, running)"
        by (rule statusInv_keep [OF inv']) (simp_all add: fr ok)
      ultimately show ?thesis by simp
    next
      case (Some config)
      with w Pair Request have r: "sys_step env s ev = (b1, running @ [Spawned config])" by simp
      from pathTidyWrite_spawn [OF w [unfolded Some]] g Pair have "running = []"
        by (auto simp: guardInv_def split: if_splits)
      with ok have sp: "stageOk (running @ [Spawned config]) (tidyStatus b)" by simp
      have "statusInv b0 (b1, running @ [Spawned config])"
        by (rule statusInv_keep [OF inv']) (simp_all add: fr sp)
      with r show ?thesis by simp
    qed
  next
    case (Step i)
    show ?thesis
    proof (cases "i < length running")
      case False
      with Pair Step inv show ?thesis by simp
    next
      case True
      with g Pair obtain gr where gr: "running = [gr]" "i = 0"
        by (cases running) (auto simp: guardInv_def)
      show ?thesis
      proof (cases gr)
        case (Spawned config)
        let ?b1 = "tidyStatusStart config b"
        have "statusInv b0 (?b1, [Tidying config])"
          using inv'
        proof (rule statusInv_push)
          show "validTransition (tidyStatus b) (tidyStatus ?b1)"
            using ok gr Spawned by (simp add: validTransition_def tidyStatusStart_log)
        qed (simp_all add: tidyStatusStart_log)
        with Pair Step gr Spawned show ?thesis by simp
      next
        case (Tidying config)
        obtain e b1 where d: "doTidy env config b = (e, b1)"
          by (cases "doTidy env config b") auto
        from ok gr Tidying have st: "state (tidyStatus b) = tidyStatusStarted"
            and z: "countersZero (tidyStatus b)"
          by simp_all
        have bc: "unat (certStoreDeletedCount (tidyStatus b))
            + length (listing (storage b) ''certs/'') < 2 ^ 64"
          using z nc ls by (simp add: countersZero_def)
        have br: "unat (revokedCertDeletedCount (tidyStatus b))
            + length (listing (storage b) ''revoked/'') < 2 ^ 64"
          using z nr ls by (simp add: countersZero_def)
        have bm: "unat (missingIssuerCertCount (tidyStatus b))
            + length (listing (storage b) ''revoked/'') < 2 ^ 64"
          using z nr ls by (simp add: countersZero_def)
        note a = doTidy_advances [OF st bc br bm d]
        have "stageOk [Stopping e] (tidyStatus b1)"
          using advances_state [OF a st] by simp
        with inv' a st have "statusInv b0 (b1, [Stopping e])"
          by (rule statusInv_advances)
        with Pair Step gr Tidying d show ?thesis by simp
      next
        case (Stopping e)
        let ?b1 = "tidyStatusStop e b"
        have "statusInv b0 (?b1, [Exiting])"
          using inv'
        proof (rule statusInv_push)
          show "validTransition (tidyStatus b) (tidyStatus ?b1)"
            using ok gr Stopping by (simp add: validTransition_def tidyStatusStop_log)
        qed (simp_all add: tidyStatusStop_log)
        with Pair Step gr Stopping show ?thesis by simp
      next
        case Exiting
        have "stageOk [] (tidyStatus b)"
          using ok gr Exiting by simp
        then have "statusInv b0 (b\<lparr>tidyCASGuard := 0\<rparr>, [])"
          by (intro statusInv_keep [OF inv']) simp_all
        with Pair Step gr Exiting show ?thesis by simp
      qed
    qed
  qed
qed

lemma statusInv_steps:
  assumes "statusInv b0 s" and "guardInv s"
      and "length (listing (storage b0) ''certs/'') < 2 ^ 64"
      and "length (listing (storage b0) ''revoked/'') < 2 ^ 64"
  shows "statusInv b0 (foldl (sys_step env) s evs)"
  using assms(1,2)
proof (induction evs arbitrary: s)
  case Nil
  then show ?case by simp
next
  case (Cons ev evs)
  from statusInv_step [OF Cons.prems assms(3,4)] guardInv_step [OF Cons.prems(2)]
  show ?case using Cons.IH by simp
qed

text \<open>
  C8. From a backend whose status is not \<open>Running\<close> and whose guard is idle, after any
  sequence of start requests and goroutine steps, the values the status has taken, in
  the order it took them, follow one another by valid transitions only: a run starts
  from a state that is not \<open>Running\<close> (\<open>Inactive\<close>, or the \<open>Finished\<close> or \<open>Error\<close> of the run
  before) into \<open>Running\<close> with the three counters zero; within the run the state stays
  \<open>Running\<close> and no counter decreases; the run stops from \<open>Running\<close> into \<open>Finished\<close> or
  \<open>Error\<close> with the counters as they were. (The storage lists fewer than \<open>2 ^ 64\<close> keys
  under each prefix, as every Go slice does, so the \<open>uint\<close> counters do not wrap.)
\<close>

theorem status_state_machine:
  assumes "state (tidyStatus b0) \<noteq> tidyStatusStarted"
      and "tidyCASGuard b0 = 0"
      and "length (listing (storage b0) ''certs/'') < 2 ^ 64"
      and "length (listing (storage b0) ''revoked/'') < 2 ^ 64"
      and "foldl (sys_step env) (b0, []) evs = (b, running)"
  shows "\<exists>new. statusLog b = new @ statusLog b0
           \<and> tidyStatus b = hd (new @ [tidyStatus b0])
           \<and> successively validTransition (tidyStatus b0 # rev new)"
proof -
  have "statusInv b0 (b0, [])"
    using assms(1) by (simp add: statusInv_def)
  moreover have "guardInv (b0, [])"
    using assms(2) by (simp add: guardInv_def)
  ultimately have "statusInv b0 (foldl (sys_step env) (b0, []) evs)"
    using assms(3,4) by (rule statusInv_steps)
  with assms(5) obtain new where new: "statusLog b = new @ statusLog b0"
      "tidyStatus b = hd (new @ [tidyStatus b0])"
      "successively (\<lambda>y x. validTransition x y) (new @ [tidyStatus b0])"
    by (auto simp: statusInv_def)
  from new(3) have "successively validTransition (rev (new @ [tidyStatus b0]))"
    by (simp only: successively_rev)
  with new(1,2) show ?thesis by auto
qed

theorem status_state_machine_witness:
  "state (tidyStatus demoBackend) \<noteq> tidyStatusStarted
   \<and> tidyCASGuard demoBackend = 0
   \<and> length (listing (storage demoBackend) ''certs/'') < 2 ^ 64
   \<and> length (listing (storage demoBackend) ''revoked/'') < 2 ^ 64
   \<and> (\<exists>new. statusLog (fst (foldl (sys_step demoEnv) (demoBackend, [])
          [Request demoRequest, Step 0, Step 0, Step 0, Step 0, Request demoRequest, Step 0]))
            = new @ statusLog demoBackend
         \<and> successively validTransition (tidyStatus demoBackend # rev new))
   \<and> map (\<lambda>st. (state st, unat (certStoreDeletedCount st), unat (revokedCertDeletedCount st),
                 unat (missingIssuerCertCount st)))
         (rev (statusLog (fst (foldl (sys_step demoEnv) (demoBackend, [])
            [Request demoRequest, Step 0, Step 0, Step 0, Step 0, Request demoRequest, Step 0]))))
       = [(tidyStatusStarted, 0, 0, 0), (tidyStatusStarted, 0, 0, 0), (tidyStatusStarted, 1, 0, 0),
          (tidyStatusStarted, 1, 0, 0), (tidyStatusStarted, 1, 0, 1), (tidyStatusStarted, 1, 1, 1),
          (tidyStatusStarted, 1, 1, 1), (tidyStatusStarted, 1, 2, 1), (tidyStatusStarted, 1, 2, 1),
          (tidyStatusStarted, 1, 3, 1), (tidyStatusFinished, 1, 3, 1), (tidyStatusStarted, 0, 0, 0)]"
proof -
  let ?evs = "[Request demoRequest, Step 0, Step 0, Step 0, Step 0, Request demoRequest, Step 0]"
  let ?s = "foldl (sys_step demoEnv) (demoBackend, []) ?evs"
  have h: "state (tidyStatus demoBackend) \<noteq> tidyStatusStarted" "tidyCASGuard demoBackend = 0"
      "length (listing (storage demoBackend) ''certs/'') < 2 ^ 64"
      "length (listing (storage demoBackend) ''revoked/'') < 2 ^ 64"
    by (simp_all add: demoBackend_def demoStorage_def inactiveStatus_def)
  have f: "?s = (fst ?s, snd ?s)"
    by (simp only: prod.collapse)
  have c: "map (\<lambda>st. (state st, unat (certStoreDeletedCount st), unat (revokedCertDeletedCount st),
                 unat (missingIssuerCertCount st))) (rev (statusLog (fst ?s)))
       = [(tidyStatusStarted, 0, 0, 0), (tidyStatusStarted, 0, 0, 0), (tidyStatusStarted, 1, 0, 0),
          (tidyStatusStarted, 1, 0, 0), (tidyStatusStarted, 1, 0, 1), (tidyStatusStarted, 1, 1, 1),
          (tidyStatusStarted, 1, 1, 1), (tidyStatusStarted, 1, 2, 1), (tidyStatusStarted, 1, 2, 1),
          (tidyStatusStarted, 1, 3, 1), (tidyStatusFinished, 1, 3, 1), (tidyStatusStarted, 0, 0, 0)]"
    by code_simp
  from status_state_machine [OF h f] h c show ?thesis
    by blast
qed

end
